theory Spec2Isabelle
  imports Main
begin

section \<open>The drone-portainer plugin (src/index.ts) as a function of its environment\<close>

text \<open>
  The plugin is one asynchronous function that talks to a Portainer API and ends the
  process. The model makes its two inputs explicit: the process environment (record
  \<open>config\<close>) and the remote side (record \<open>portainer\<close>, the response given to each request
  and the order in which the responses of the concurrent image pulls arrive). A run
  returns the list of requests it issued, in the order of issue, and how the process
  ended. Line numbers are those of \<open>src/index.ts\<close>; the program is the text from line
  227 on (the lines before it are an earlier version of the same program).

  Strings are \<open>string\<close>, one \<open>char\<close> for each code unit (the texts at stake, hashes
  and names, are ASCII); an environment variable is a \<open>string option\<close> (\<open>None\<close> when
  it is unset, JavaScript's \<open>undefined\<close>). Identifiers (\<open>Id\<close>) are integers. A response
  carries its status and its body; a body that the code scans with \<open>.find\<close> is a
  \<open>list option\<close>, \<open>None\<close> standing for a body that is no array, on which \<open>.find\<close> throws.
  The bearer token, which the code reads from the \<open>/auth\<close> body and sends with every
  later request, and the log output are not part of the model; the value of the
  \<open>X-Registry-Auth\<close> header, the base64 text of \<open>{"registryId": Id}\<close>, is represented
  by that \<open>Id\<close>.
\<close>

subsection \<open>JavaScript values and strings\<close>

text \<open>\<open>s.split(sep)\<close> for a one-character separator: never empty, one more piece than
  there are separators.\<close>

fun split_from :: "char \<Rightarrow> string \<Rightarrow> string \<Rightarrow> string list" where
  "split_from sep piece [] = [piece]"
| "split_from sep piece (c # cs) =
     (if c = sep then piece # split_from sep [] cs else split_from sep (piece @ [c]) cs)"

definition js_split :: "char \<Rightarrow> string \<Rightarrow> string list" where
  "js_split sep s = split_from sep [] s"

text \<open>String concatenation with a value that may be \<open>undefined\<close>.\<close>

definition js_string :: "string option \<Rightarrow> string" where
  "js_string v = (case v of None \<Rightarrow> ''undefined'' | Some s \<Rightarrow> s)"

text \<open>The type \<open>string | false\<close> of \<open>process.env.X ?? false\<close>, and its truthiness.\<close>

datatype flag = Str string | JsFalse

definition or_false :: "string option \<Rightarrow> flag" where
  "or_false v = (case v of None \<Rightarrow> JsFalse | Some s \<Rightarrow> Str s)"

fun truthy :: "flag \<Rightarrow> bool" where
  "truthy JsFalse = False"
| "truthy (Str s) = (s \<noteq> [])"

subsection \<open>Process configuration\<close>

text \<open>Lines 230 to 252: the environment variables, each unset or a string.\<close>

record config =
  branchName :: "string option"
  commitHash :: "string option"
  portainerUsername :: "string option"
  portainerPassword :: "string option"
  PLUGIN_IMAGES :: "string option"
  stackName :: "string option"
  endpoint :: "string option"
  additionalComposeEnv :: "(string \<times> string) list"
  PLUGIN_STANDALONE :: "string option"
  PLUGIN_FORCE_PULL :: "string option"
  composeFileContent :: "string option"

text \<open>
  \<open>additionalComposeEnv\<close> is the object parsed from \<open>PLUGIN_COMPOSE_ENVIRONMENT\<close> (empty
  when the variable is unset), as the list of its properties in the order of
  \<open>Object.keys\<close>. \<open>composeFileContent\<close> is what \<open>fs.readFileSync(dockerComposeFile)\<close>
  returns, \<open>None\<close> when it throws.
\<close>

definition images :: "config \<Rightarrow> string" where
  "images cfg = (case PLUGIN_IMAGES cfg of None \<Rightarrow> [] | Some s \<Rightarrow> s)"

definition standalone :: "config \<Rightarrow> flag" where
  "standalone cfg = or_false (PLUGIN_STANDALONE cfg)"

definition forcePull :: "config \<Rightarrow> flag" where
  "forcePull cfg = or_false (PLUGIN_FORCE_PULL cfg)"

subsection \<open>Requests and responses\<close>

record endpoint_entry =
  ep_Id :: int
  ep_Name :: string

record registry_entry =
  reg_Id :: int
  reg_URL :: string

record stack_entry =
  stack_Id :: int
  stack_Name :: string

record env_entry =
  env_name :: string
  env_value :: "string option"

record create_body =
  create_Name :: "string option"
  create_StackFileContent :: string
  create_Env :: "env_entry list"
  create_Prune :: bool
  create_SwarmID :: "string option"

record update_body =
  update_id :: int
  update_StackFileContent :: string
  update_Env :: "env_entry list"
  update_Prune :: bool
  update_PullImage :: bool

datatype request =
    PostAuth "string option" "string option"
  | GetEndpoints
  | GetRegistries
  | PostImagesCreate int string string "int option"
  | GetSwarm int
  | GetStacks "string option"
  | PostStacks nat int create_body
  | PutStacks int int update_body

text \<open>
  \<open>PostImagesCreate ep fromImage tag auth\<close> is
  \<open>POST /endpoints/ep/docker/images/create?fromImage=..&tag=..\<close> with the
  \<open>X-Registry-Auth\<close> header \<open>auth\<close>; \<open>GetStacks f\<close> is \<open>GET /stacks\<close> with the filter
  \<open>SwarmID = f\<close> when there is one; \<open>PostStacks type ep body\<close> is
  \<open>POST /stacks?type=..&method=string&endpointId=ep\<close>; \<open>PutStacks id ep body\<close> is
  \<open>PUT /stacks/id?endpointId=ep\<close>.
\<close>

record 'a response =
  status :: nat
  data :: 'a

record portainer =
  auth_response :: "string response"
  endpoints_response :: "endpoint_entry list option response"
  registries_response :: "nat \<Rightarrow> registry_entry list option response"
  image_response :: "nat \<Rightarrow> unit response"
  swarm_response :: "string response"
  stacks_response :: "stack_entry list option response"
  create_response :: "unit response"
  update_response :: "unit response"
  arrival :: "nat list"

text \<open>
  The pull of the \<open>i\<close>-th image receives \<open>registries_response i\<close> for the registry list
  it asks for and \<open>image_response i\<close> for its pull request. \<open>arrival\<close> lists, by the
  index of the image, whose pending response arrives next.
\<close>

datatype outcome = Done | Exit1 | Crash

text \<open>
  \<open>Done\<close>: the function ran to its end (exit code 0). \<open>Exit1\<close>: \<open>process.exit(1)\<close>.
  \<open>Crash\<close>: an exception nobody catches, a request that axios rejects or a \<open>.find\<close> on
  a body that is no array; the promise of the main function is rejected, which
  nothing handles, and the process ends there (what Node.js does since version 15).
\<close>

text \<open>Lines 254 to 259: axios rejects a response whose status is 5000 or more.\<close>

definition validateStatus :: "nat \<Rightarrow> bool" where
  "validateStatus s = (s < 5000)"

subsection \<open>Session and endpoint\<close>

text \<open>Lines 331 to 345: \<open>POST /auth\<close>.\<close>

definition authenticate ::
  "config \<Rightarrow> portainer \<Rightarrow> request list \<Rightarrow> request list \<times> (outcome + string response)" where
  "authenticate cfg srv tr =
     (let tr' = tr @ [PostAuth (portainerUsername cfg) (portainerPassword cfg)];
          response = auth_response srv
      in if \<not> validateStatus (status response) then (tr', Inl Crash)
         else if status response \<noteq> 200 then (tr', Inl Exit1)
         else (tr', Inr response))"

text \<open>Lines 347 to 364: \<open>GET /endpoints\<close> and the search for the endpoint by name. The
  status tested at line 350 is the one of \<open>response\<close>, the answer to \<open>/auth\<close>, not the
  one of \<open>endpointsReponse\<close>.\<close>

definition resolve_endpoint ::
  "config \<Rightarrow> portainer \<Rightarrow> string response \<Rightarrow> request list
     \<Rightarrow> request list \<times> (outcome + endpoint_entry)" where
  "resolve_endpoint cfg srv response tr =
     (let tr' = tr @ [GetEndpoints];
          endpointsReponse = endpoints_response srv
      in if \<not> validateStatus (status endpointsReponse) then (tr', Inl Crash)
         else if status response \<noteq> 200 then (tr', Inl Exit1)
         else (case data endpointsReponse of
                 None \<Rightarrow> (tr', Inl Crash)
               | Some eps \<Rightarrow>
                   (case find (\<lambda>ep. Some (ep_Name ep) = endpoint cfg) eps of
                      None \<Rightarrow> (tr', Inl Exit1)
                    | Some localEp \<Rightarrow> (tr', Inr localEp))))"

subsection \<open>Image pulls\<close>

text \<open>
  Lines 366 to 402, with \<open>getRegistries\<close> (lines 263 to 280) and \<open>getRegistryAuth\<close>
  (lines 282 to 306). \<open>Promise.all(images.split(",").map(async ...))\<close> calls the
  callback for one image after the other, and each call runs until its first \<open>await\<close>
  of something that is not there yet: the response to \<open>/registries\<close> for an image of a
  private registry, the response to the pull request otherwise. No response is
  handled before \<open>map\<close> has returned. Afterwards the responses arrive in some
  order, and each arrival runs the callback it belongs to up to its next request, to
  its end, or to the end of the process. A pull is in one of four phases: it waits for
  the registry list it asked for, it has found the list in \<open>registries\<close> and goes on
  without a request, it waits for the answer to its pull request, or it is finished.
\<close>

datatype phase =
    AwaitRegistries string
  | CachedRegistries string "registry_entry list"
  | AwaitImage
  | Finished

record pull_state =
  trace :: "request list"
  registries :: "registry_entry list option"
  tasks :: "(string \<times> phase) list"
  halted :: "outcome option"

definition registry_of :: "string \<Rightarrow> string" where
  "registry_of imageName = hd (js_split CHR ''/'' imageName)"

text \<open>The callback up to its first request (lines 371 to 391, 283 and 264 to 269).
  \<open>getRegistries\<close> returns the list in \<open>registries\<close> when there is one and asks for
  \<open>/registries\<close> otherwise.\<close>

definition start_pull :: "int \<Rightarrow> string \<Rightarrow> string \<Rightarrow> pull_state \<Rightarrow> pull_state" where
  "start_pull ep releaseTag imageName st =
     (let registry = registry_of imageName
      in if registry \<noteq> ''docker.io'' then
           (case registries st of
              Some regs \<Rightarrow>
                st\<lparr>tasks := tasks st @ [(imageName, CachedRegistries registry regs)]\<rparr>
            | None \<Rightarrow>
                st\<lparr>trace := trace st @ [GetRegistries],
                   tasks := tasks st @ [(imageName, AwaitRegistries registry)]\<rparr>)
         else
           st\<lparr>trace := trace st @ [PostImagesCreate ep imageName releaseTag None],
              tasks := tasks st @ [(imageName, AwaitImage)]\<rparr>)"

text \<open>The rest of \<open>getRegistryAuth\<close>, from the list of registries on (lines 285 to
  305), and the pull request with the header (lines 381 to 391).\<close>

definition getRegistryAuth ::
  "int \<Rightarrow> string \<Rightarrow> nat \<Rightarrow> string \<Rightarrow> string \<Rightarrow> registry_entry list \<Rightarrow> pull_state \<Rightarrow> pull_state" where
  "getRegistryAuth ep releaseTag i imageName registryUrl currentRegistries st =
     (case find (\<lambda>reg. reg_URL reg = registryUrl) currentRegistries of
        None \<Rightarrow> st\<lparr>halted := Some Exit1\<rparr>
      | Some registryFromList \<Rightarrow>
          st\<lparr>trace := trace st @
                 [PostImagesCreate ep imageName releaseTag (Some (reg_Id registryFromList))],
             tasks := (tasks st)[i := (imageName, AwaitImage)]\<rparr>)"

text \<open>A callback that found the list cached goes on without waiting for the network.\<close>

definition resume_cached :: "int \<Rightarrow> string \<Rightarrow> nat \<Rightarrow> pull_state \<Rightarrow> pull_state" where
  "resume_cached ep releaseTag i st =
     (if halted st \<noteq> None \<or> length (tasks st) \<le> i then st
      else (case tasks st ! i of
              (imageName, CachedRegistries registryUrl regs) \<Rightarrow>
                getRegistryAuth ep releaseTag i imageName registryUrl regs st
            | _ \<Rightarrow> st))"

text \<open>The response that pull \<open>i\<close> waits for arrives: the registry list (lines 271 to
  279, then \<open>getRegistryAuth\<close>) or the answer to the pull request (lines 393 to 397).
  Nothing happens once the process has ended, or when pull \<open>i\<close> waits for nothing.\<close>

definition deliver :: "portainer \<Rightarrow> int \<Rightarrow> string \<Rightarrow> nat \<Rightarrow> pull_state \<Rightarrow> pull_state" where
  "deliver srv ep releaseTag i st =
     (if halted st \<noteq> None \<or> length (tasks st) \<le> i then st
      else (case tasks st ! i of
              (imageName, AwaitRegistries registryUrl) \<Rightarrow>
                (let registriesResponse = registries_response srv i
                 in if \<not> validateStatus (status registriesResponse)
                    then st\<lparr>halted := Some Crash\<rparr>
                    else if status registriesResponse \<noteq> 200
                    then st\<lparr>halted := Some Exit1\<rparr>
                    else (case data registriesResponse of
                            None \<Rightarrow> st\<lparr>halted := Some Crash\<rparr>
                          | Some regs \<Rightarrow>
                              getRegistryAuth ep releaseTag i imageName registryUrl regs
                                (st\<lparr>registries := Some regs\<rparr>)))
            | (imageName, AwaitImage) \<Rightarrow>
                (let imageResponse = image_response srv i
                 in if \<not> validateStatus (status imageResponse)
                    then st\<lparr>halted := Some Crash\<rparr>
                    else if status imageResponse \<noteq> 200
                    then st\<lparr>halted := Some Exit1\<rparr>
                    else st\<lparr>tasks := (tasks st)[i := (imageName, Finished)]\<rparr>)
            | _ \<Rightarrow> st))"

text \<open>
  The stage: nothing when \<open>images\<close> is empty; otherwise all callbacks are started,
  those that found the registry list go on, the responses arrive as \<open>arrival\<close> says,
  and the responses still pending after that arrive in the order of the images (a pull
  waits for two responses at most, so two rounds bring every pull to its end: lemma
  \<open>two_rounds_finish\<close>). \<open>Promise.all\<close> returns when every pull is finished.
\<close>

definition pull_images ::
  "config \<Rightarrow> portainer \<Rightarrow> int \<Rightarrow> string \<Rightarrow> request list \<Rightarrow> request list \<times> (outcome + unit)" where
  "pull_images cfg srv ep releaseTag tr =
     (if images cfg \<noteq> [] then
        (let st0 = \<lparr>trace = tr, registries = None, tasks = [], halted = None\<rparr>;
             st1 = fold (start_pull ep releaseTag) (js_split CHR '','' (images cfg)) st0;
             n = length (tasks st1);
             st2 = fold (resume_cached ep releaseTag) [0..<n] st1;
             st3 = fold (deliver srv ep releaseTag) (arrival srv) st2;
             st4 = fold (deliver srv ep releaseTag) ([0..<n] @ [0..<n]) st3
         in (trace st4, case halted st4 of Some e \<Rightarrow> Inl e | None \<Rightarrow> Inr ()))
      else (tr, Inr ()))"

subsection \<open>Stack reconciliation\<close>

text \<open>Lines 404 to 428: the swarm id and the filter of the stack list, in clustered
  mode.\<close>

definition resolve_swarm ::
  "config \<Rightarrow> portainer \<Rightarrow> endpoint_entry \<Rightarrow> request list
     \<Rightarrow> request list \<times> (outcome + string \<times> string option)" where
  "resolve_swarm cfg srv localEp tr =
     (if \<not> truthy (standalone cfg) then
        (let tr' = tr @ [GetSwarm (ep_Id localEp)];
             swarmResponse = swarm_response srv
         in if \<not> validateStatus (status swarmResponse) then (tr', Inl Crash)
            else if status swarmResponse \<noteq> 200 then (tr', Inl Exit1)
            else (tr', Inr (data swarmResponse, Some (data swarmResponse))))
      else (tr, Inr ([], None)))"

text \<open>Line 456, line 314 and lines 458 to 468.\<close>

definition urlPrefix :: "config \<Rightarrow> string" where
  "urlPrefix cfg =
     (if branchName cfg = Some ''main'' then [] else js_string (branchName cfg) @ ''.'')"

definition releaseTag_of :: "config \<Rightarrow> string \<Rightarrow> string" where
  "releaseTag_of cfg commit = js_string (branchName cfg) @ ''-'' @ take 8 commit"

definition composeEnvArray :: "config \<Rightarrow> string \<Rightarrow> env_entry list" where
  "composeEnvArray cfg releaseTag =
     [\<lparr>env_name = ''RELEASE_TAG'', env_value = Some releaseTag\<rparr>,
      \<lparr>env_name = ''URL_PREFIX'', env_value = Some (urlPrefix cfg)\<rparr>,
      \<lparr>env_name = ''STACK_NAME'', env_value = stackName cfg\<rparr>]
     @ map (\<lambda>k. \<lparr>env_name = k, env_value = map_of (additionalComposeEnv cfg) k\<rparr>)
         (map fst (additionalComposeEnv cfg))"

text \<open>Lines 470 to 496, the create request, and lines 497 to 518, the update request.\<close>

definition create_stack ::
  "config \<Rightarrow> portainer \<Rightarrow> endpoint_entry \<Rightarrow> string \<Rightarrow> string \<Rightarrow> env_entry list
     \<Rightarrow> request list \<Rightarrow> request list \<times> outcome" where
  "create_stack cfg srv localEp swarmId composeFile env tr =
     (let operationType = (if \<not> truthy (standalone cfg) then 1 else 2);
          stackCreateOptions =
            \<lparr>create_Name = stackName cfg,
             create_StackFileContent = composeFile,
             create_Env = env,
             create_Prune = True,
             create_SwarmID = (if \<not> truthy (standalone cfg) then Some swarmId else None)\<rparr>;
          tr' = tr @ [PostStacks operationType (ep_Id localEp) stackCreateOptions];
          stackCreateResponse = create_response srv
      in if \<not> validateStatus (status stackCreateResponse) then (tr', Crash)
         else if status stackCreateResponse \<noteq> 200 then (tr', Exit1)
         else (tr', Done))"

definition update_stack ::
  "config \<Rightarrow> portainer \<Rightarrow> endpoint_entry \<Rightarrow> stack_entry \<Rightarrow> string \<Rightarrow> env_entry list
     \<Rightarrow> request list \<Rightarrow> request list \<times> outcome" where
  "update_stack cfg srv localEp stackToUpdate composeFile env tr =
     (let tr' = tr @ [PutStacks (stack_Id stackToUpdate) (ep_Id localEp)
                        \<lparr>update_id = stack_Id stackToUpdate,
                         update_StackFileContent = composeFile,
                         update_Env = env,
                         update_Prune = True,
                         update_PullImage = truthy (forcePull cfg)\<rparr>];
          stackUpdateResponse = update_response srv
      in if \<not> validateStatus (status stackUpdateResponse) then (tr', Crash)
         else if status stackUpdateResponse \<noteq> 200 then (tr', Exit1)
         else (tr', Done))"

text \<open>Lines 430 to 443: the list of stacks and the search for the stack by name.\<close>

definition list_stacks ::
  "config \<Rightarrow> portainer \<Rightarrow> string option \<Rightarrow> request list
     \<Rightarrow> request list \<times> (outcome + stack_entry option)" where
  "list_stacks cfg srv stackFilter tr =
     (let tr' = tr @ [GetStacks stackFilter];
          stacksResponse = stacks_response srv
      in if \<not> validateStatus (status stacksResponse) then (tr', Inl Crash)
         else if status stacksResponse \<noteq> 200 then (tr', Inl Exit1)
         else (case data stacksResponse of
                 None \<Rightarrow> (tr', Inl Crash)
               | Some stacks \<Rightarrow>
                   (tr', Inr (find (\<lambda>stack. Some (stack_Name stack) = stackName cfg) stacks))))"

text \<open>Lines 404 to 518 together; the compose file is read (lines 445 to 454) after the
  list of stacks and before the stack is written.\<close>

definition reconcile ::
  "config \<Rightarrow> portainer \<Rightarrow> endpoint_entry \<Rightarrow> string \<Rightarrow> request list
     \<Rightarrow> request list \<times> outcome" where
  "reconcile cfg srv localEp releaseTag tr =
     (case resolve_swarm cfg srv localEp tr of
        (tr1, Inl e) \<Rightarrow> (tr1, e)
      | (tr1, Inr (swarmId, stackFilter)) \<Rightarrow>
          (case list_stacks cfg srv stackFilter tr1 of
             (tr2, Inl e) \<Rightarrow> (tr2, e)
           | (tr2, Inr stackToUpdate) \<Rightarrow>
               (case composeFileContent cfg of
                  None \<Rightarrow> (tr2, Exit1)
                | Some composeFile \<Rightarrow>
                    (let env = composeEnvArray cfg releaseTag
                     in case stackToUpdate of
                          None \<Rightarrow> create_stack cfg srv localEp swarmId composeFile env tr2
                        | Some s \<Rightarrow> update_stack cfg srv localEp s composeFile env tr2))))"

subsection \<open>The run\<close>

text \<open>Lines 308 to 521: the test of the commit hash, the release tag, and the stages in
  their order.\<close>

definition run :: "config \<Rightarrow> portainer \<Rightarrow> request list \<times> outcome" where
  "run cfg srv =
     (case commitHash cfg of
        None \<Rightarrow> ([], Exit1)
      | Some commit \<Rightarrow>
          if commit = [] then ([], Exit1)
          else
            (let releaseTag = releaseTag_of cfg commit
             in case authenticate cfg srv [] of
                  (tr1, Inl e) \<Rightarrow> (tr1, e)
                | (tr1, Inr response) \<Rightarrow>
                    (case resolve_endpoint cfg srv response tr1 of
                       (tr2, Inl e) \<Rightarrow> (tr2, e)
                     | (tr2, Inr localEp) \<Rightarrow>
                         (case pull_images cfg srv (ep_Id localEp) releaseTag tr2 of
                            (tr3, Inl e) \<Rightarrow> (tr3, e)
                          | (tr3, Inr u) \<Rightarrow> reconcile cfg srv localEp releaseTag tr3))))"

subsection \<open>Reading a trace\<close>

text \<open>The requests that write a stack, the tag of a pull request, the \<open>Env\<close> of a stack
  write, and the number of requests for the registry list.\<close>

fun stack_write :: "request \<Rightarrow> bool" where
  "stack_write (PostStacks ty ep body) = True"
| "stack_write (PutStacks sid ep body) = True"
| "stack_write r = False"

fun reconcile_request :: "request \<Rightarrow> bool" where
  "reconcile_request (GetSwarm ep) = True"
| "reconcile_request (GetStacks f) = True"
| "reconcile_request (PostStacks ty ep body) = True"
| "reconcile_request (PutStacks sid ep body) = True"
| "reconcile_request r = False"

fun pull_tag :: "request \<Rightarrow> string option" where
  "pull_tag (PostImagesCreate ep imageName tag auth) = Some tag"
| "pull_tag r = None"

fun compose_env :: "request \<Rightarrow> env_entry list option" where
  "compose_env (PostStacks ty ep body) = Some (create_Env body)"
| "compose_env (PutStacks sid ep body) = Some (update_Env body)"
| "compose_env r = None"

definition registry_fetches :: "request list \<Rightarrow> nat" where
  "registry_fetches tr = length (filter (\<lambda>r. r = GetRegistries) tr)"

subsection \<open>Example runs\<close>

text \<open>
  A clustered deployment of the stack \<open>web\<close>, which exists with \<open>Id\<close> 7, with one image
  of \<open>docker.io\<close> and one of a private registry; the same deployment in standalone
  mode, without images, on a control plane that has no stack yet; a deployment of two
  images of the same private registry; a control plane that answers the endpoint
  request with status 500; and the first deployment with a compose file that cannot
  be read.
\<close>

definition ok200 :: "'a \<Rightarrow> 'a response" where
  "ok200 d = \<lparr>status = 200, data = d\<rparr>"

definition demo_cfg :: config where
  "demo_cfg =
     \<lparr>branchName = Some ''dev'', commitHash = Some ''0123456789abcdef'',
      portainerUsername = Some ''ci'', portainerPassword = Some ''pw'',
      PLUGIN_IMAGES = Some ''docker.io/app:latest,registry.example.com/svc:latest'',
      stackName = Some ''web'', endpoint = Some ''local'',
      additionalComposeEnv = [(''A'', ''1''), (''B'', ''2'')],
      PLUGIN_STANDALONE = None, PLUGIN_FORCE_PULL = Some ''false'',
      composeFileContent = Some ''services: {}''\<rparr>"

definition demo_srv :: portainer where
  "demo_srv =
     \<lparr>auth_response = ok200 ''jwt'',
      endpoints_response = ok200 (Some [\<lparr>ep_Id = 1, ep_Name = ''local''\<rparr>]),
      registries_response =
        (\<lambda>i. ok200 (Some [\<lparr>reg_Id = 5, reg_URL = ''registry.example.com''\<rparr>])),
      image_response = (\<lambda>i. ok200 ()),
      swarm_response = ok200 ''swarm1'',
      stacks_response = ok200 (Some [\<lparr>stack_Id = 7, stack_Name = ''web''\<rparr>]),
      create_response = ok200 (), update_response = ok200 (),
      arrival = [1, 0]\<rparr>"

definition standalone_cfg :: config where
  "standalone_cfg = demo_cfg\<lparr>PLUGIN_IMAGES := None, PLUGIN_STANDALONE := Some ''false''\<rparr>"

definition fresh_srv :: portainer where
  "fresh_srv = demo_srv\<lparr>stacks_response := ok200 (Some [])\<rparr>"

definition two_private_cfg :: config where
  "two_private_cfg =
     demo_cfg\<lparr>PLUGIN_IMAGES := Some ''registry.example.com/svc,registry.example.com/web''\<rparr>"

definition failing_endpoints_srv :: portainer where
  "failing_endpoints_srv =
     demo_srv\<lparr>endpoints_response :=
                \<lparr>status = 500, data = Some [\<lparr>ep_Id = 1, ep_Name = ''local''\<rparr>]\<rparr>\<rparr>"


definition demo_update_body :: update_body where
  "demo_update_body =
     \<lparr>update_id = 7, update_StackFileContent = ''services: {}'',
      update_Env =
        [\<lparr>env_name = ''RELEASE_TAG'', env_value = Some ''dev-01234567''\<rparr>,
         \<lparr>env_name = ''URL_PREFIX'', env_value = Some ''dev.''\<rparr>,
         \<lparr>env_name = ''STACK_NAME'', env_value = Some ''web''\<rparr>,
         \<lparr>env_name = ''A'', env_value = Some ''1''\<rparr>,
         \<lparr>env_name = ''B'', env_value = Some ''2''\<rparr>],
      update_Prune = True, update_PullImage = True\<rparr>"

definition demo_update :: request where
  "demo_update = PutStacks 7 1 demo_update_body"

definition demo_create_body :: create_body where
  "demo_create_body =
     \<lparr>create_Name = Some ''web'', create_StackFileContent = ''services: {}'',
      create_Env =
        [\<lparr>env_name = ''RELEASE_TAG'', env_value = Some ''dev-01234567''\<rparr>,
         \<lparr>env_name = ''URL_PREFIX'', env_value = Some ''dev.''\<rparr>,
         \<lparr>env_name = ''STACK_NAME'', env_value = Some ''web''\<rparr>,
         \<lparr>env_name = ''A'', env_value = Some ''1''\<rparr>,
         \<lparr>env_name = ''B'', env_value = Some ''2''\<rparr>],
      create_Prune = True, create_SwarmID = None\<rparr>"

definition demo_create :: request where
  "demo_create = PostStacks 2 1 demo_create_body"

definition demo_trace :: "request list" where
  "demo_trace =
     [PostAuth (Some ''ci'') (Some ''pw''), GetEndpoints,
      PostImagesCreate 1 ''docker.io/app:latest'' ''dev-01234567'' None,
      GetRegistries,
      PostImagesCreate 1 ''registry.example.com/svc:latest'' ''dev-01234567'' (Some 5),
      GetSwarm 1, GetStacks (Some ''swarm1''), demo_update]"

subsection \<open>Invariants of the stages\<close>

text \<open>What the pull stage may add to the trace, what a pull in progress remembers, and
  what the last stage may add.\<close>

definition pull_ok :: "config \<Rightarrow> int \<Rightarrow> string \<Rightarrow> request \<Rightarrow> bool" where
  "pull_ok cfg ep releaseTag r =
     (r = GetRegistries \<or>
      (\<exists>imageName auth. r = PostImagesCreate ep imageName releaseTag auth
          \<and> imageName \<in> set (js_split CHR '','' (images cfg))
          \<and> (auth = None \<longleftrightarrow> registry_of imageName = ''docker.io'')))"

definition task_ok :: "config \<Rightarrow> string \<times> phase \<Rightarrow> bool" where
  "task_ok cfg t =
     (fst t \<in> set (js_split CHR '','' (images cfg)) \<and>
      (case snd t of
         AwaitRegistries url \<Rightarrow> url = registry_of (fst t) \<and> url \<noteq> ''docker.io''
       | CachedRegistries url regs \<Rightarrow> url = registry_of (fst t) \<and> url \<noteq> ''docker.io''
       | _ \<Rightarrow> True))"

definition pull_inv :: "config \<Rightarrow> int \<Rightarrow> string \<Rightarrow> request list \<Rightarrow> pull_state \<Rightarrow> bool" where
  "pull_inv cfg ep releaseTag tr st =
     ((\<exists>ext. trace st = tr @ ext \<and> (\<forall>r \<in> set ext. pull_ok cfg ep releaseTag r))
      \<and> (\<forall>t \<in> set (tasks st). task_ok cfg t))"

definition late_ok :: "config \<Rightarrow> portainer \<Rightarrow> string \<Rightarrow> request \<Rightarrow> bool" where
  "late_ok cfg srv releaseTag r =
     (case r of
        GetSwarm ep \<Rightarrow> \<not> truthy (standalone cfg)
      | GetStacks f \<Rightarrow>
          f = (if truthy (standalone cfg) then None else Some (data (swarm_response srv)))
      | PostStacks ty ep body \<Rightarrow>
          ty = (if truthy (standalone cfg) then 2 else 1) \<and>
          (\<exists>composeFile. composeFileContent cfg = Some composeFile \<and>
             body = \<lparr>create_Name = stackName cfg,
                     create_StackFileContent = composeFile,
                     create_Env = composeEnvArray cfg releaseTag,
                     create_Prune = True,
                     create_SwarmID = (if truthy (standalone cfg) then None
                                       else Some (data (swarm_response srv)))\<rparr>)
      | PutStacks sid ep body \<Rightarrow>
          (\<exists>composeFile. composeFileContent cfg = Some composeFile \<and>
             body = \<lparr>update_id = sid,
                     update_StackFileContent = composeFile,
                     update_Env = composeEnvArray cfg releaseTag,
                     update_Prune = True,
                     update_PullImage = truthy (forcePull cfg)\<rparr>)
      | _ \<Rightarrow> False)"

definition decided :: "config \<Rightarrow> stack_entry list \<Rightarrow> request \<Rightarrow> bool" where
  "decided cfg stacks w =
     (case find (\<lambda>stack. Some (stack_Name stack) = stackName cfg) stacks of
        None \<Rightarrow> (\<exists>ty ep body. w = PostStacks ty ep body)
      | Some s \<Rightarrow> (\<exists>ep body. w = PutStacks (stack_Id s) ep body \<and> update_id body = stack_Id s))"

definition late_shape :: "config \<Rightarrow> portainer \<Rightarrow> request list \<Rightarrow> bool" where
  "late_shape cfg srv ext =
     ((ext = [] \<or> truthy (standalone cfg) \<or> (\<exists>ep rest. ext = GetSwarm ep # rest)) \<and>
      (filter stack_write ext = [] \<and>
         ((\<forall>f. GetStacks f \<notin> set ext) \<or> status (stacks_response srv) \<noteq> 200
            \<or> data (stacks_response srv) = None \<or> composeFileContent cfg = None)
       \<or> (\<exists>stacks w. status (stacks_response srv) = 200
             \<and> data (stacks_response srv) = Some stacks
             \<and> filter stack_write ext = [w] \<and> decided cfg stacks w)))"

definition early_ok :: "config \<Rightarrow> request list \<Rightarrow> bool" where
  "early_ok cfg early =
     (early = [PostAuth (portainerUsername cfg) (portainerPassword cfg)] \<or>
      early = [PostAuth (portainerUsername cfg) (portainerPassword cfg), GetEndpoints])"

text \<open>How far a pull has come: a pull that waits for its image has issued the pull
  request, after the registry answered if the image is private; a finished pull has
  also been answered with status 200.\<close>

definition registry_answered :: "portainer \<Rightarrow> nat \<Rightarrow> string \<Rightarrow> bool" where
  "registry_answered srv i imageName =
     (registry_of imageName \<noteq> ''docker.io'' \<longrightarrow>
        status (registries_response srv i) = 200 \<and>
        (\<exists>regs. data (registries_response srv i) = Some regs \<and>
           find (\<lambda>reg. reg_URL reg = registry_of imageName) regs \<noteq> None))"

definition pulled :: "int \<Rightarrow> string \<Rightarrow> request list \<Rightarrow> string \<Rightarrow> bool" where
  "pulled ep tag tr imageName = (\<exists>auth. PostImagesCreate ep imageName tag auth \<in> set tr)"

fun rank :: "phase \<Rightarrow> nat" where
  "rank Finished = 0"
| "rank AwaitImage = 1"
| "rank (AwaitRegistries url) = 2"
| "rank (CachedRegistries url regs) = 3"

definition task_progress ::
  "portainer \<Rightarrow> int \<Rightarrow> string \<Rightarrow> request list \<Rightarrow> nat \<Rightarrow> string \<times> phase \<Rightarrow> bool" where
  "task_progress srv ep tag tr i t =
     (case snd t of
        AwaitRegistries url \<Rightarrow> url = registry_of (fst t) \<and> url \<noteq> ''docker.io''
      | CachedRegistries url regs \<Rightarrow> False
      | AwaitImage \<Rightarrow> registry_answered srv i (fst t) \<and> pulled ep tag tr (fst t)
      | Finished \<Rightarrow> registry_answered srv i (fst t) \<and> pulled ep tag tr (fst t)
                      \<and> status (image_response srv i) = 200)"

definition progress_inv :: "portainer \<Rightarrow> int \<Rightarrow> string \<Rightarrow> pull_state \<Rightarrow> bool" where
  "progress_inv srv ep tag st =
     (\<forall>i < length (tasks st). task_progress srv ep tag (trace st) i (tasks st ! i))"

subsection \<open>The stages, one by one\<close>

lemma fold_invariant:
  assumes "P s" and "\<And>x s. x \<in> set xs \<Longrightarrow> P s \<Longrightarrow> P (f x s)"
  shows "P (fold f xs s)"
  using assms by (induction xs arbitrary: s) auto

lemma pull_inv_start:
  assumes "pull_inv cfg ep tag tr st" and "imageName \<in> set (js_split CHR '','' (images cfg))"
  shows "pull_inv cfg ep tag tr (start_pull ep tag imageName st)"
  using assms
  by (auto simp: pull_inv_def start_pull_def Let_def pull_ok_def task_ok_def split: option.splits)

lemma pull_inv_getRegistryAuth:
  assumes "pull_inv cfg ep tag tr st" and "i < length (tasks st)"
    and "imageName \<in> set (js_split CHR '','' (images cfg))"
    and "registry_of imageName \<noteq> ''docker.io''"
  shows "pull_inv cfg ep tag tr (getRegistryAuth ep tag i imageName url regs st)"
proof (cases "find (\<lambda>reg. reg_URL reg = url) regs")
  case None
  then show ?thesis using assms by (simp add: getRegistryAuth_def pull_inv_def)
next
  case (Some reg)
  have tasks: "\<forall>t \<in> set ((tasks st)[i := (imageName, AwaitImage)]). task_ok cfg t"
  proof
    fix t assume "t \<in> set ((tasks st)[i := (imageName, AwaitImage)])"
    then have "t = (imageName, AwaitImage) \<or> t \<in> set (tasks st)"
      using set_update_subset_insert [of "tasks st" i "(imageName, AwaitImage)"] by auto
    then show "task_ok cfg t"
      using assms by (auto simp: pull_inv_def task_ok_def)
  qed
  from assms(1) obtain ext where ext: "trace st = tr @ ext" "\<forall>r \<in> set ext. pull_ok cfg ep tag r"
    by (auto simp: pull_inv_def)
  have "pull_ok cfg ep tag (PostImagesCreate ep imageName tag (Some (reg_Id reg)))"
    using assms by (simp add: pull_ok_def)
  with ext have "\<exists>ext'. trace st @ [PostImagesCreate ep imageName tag (Some (reg_Id reg))] = tr @ ext'
      \<and> (\<forall>r \<in> set ext'. pull_ok cfg ep tag r)"
    by (intro exI [of _ "ext @ [PostImagesCreate ep imageName tag (Some (reg_Id reg))]"]) auto
  with tasks Some show ?thesis
    by (simp add: getRegistryAuth_def pull_inv_def)
qed

lemma pull_inv_registries_update:
  "pull_inv cfg ep tag tr (st\<lparr>registries := x\<rparr>) = pull_inv cfg ep tag tr st"
  by (simp add: pull_inv_def)

lemma pull_inv_halted_update:
  "pull_inv cfg ep tag tr (st\<lparr>halted := x\<rparr>) = pull_inv cfg ep tag tr st"
  by (simp add: pull_inv_def)

lemma pull_inv_task:
  assumes "pull_inv cfg ep tag tr st" and "i < length (tasks st)"
  shows "task_ok cfg (tasks st ! i)"
  using assms by (simp add: pull_inv_def)

lemma pull_inv_resume:
  assumes "pull_inv cfg ep tag tr st"
  shows "pull_inv cfg ep tag tr (resume_cached ep tag i st)"
proof (cases "halted st \<noteq> None \<or> length (tasks st) \<le> i")
  case True
  then show ?thesis using assms by (simp add: resume_cached_def)
next
  case False
  then have i: "i < length (tasks st)" by simp
  obtain imageName ph where t: "tasks st ! i = (imageName, ph)" by (cases "tasks st ! i")
  have ok: "task_ok cfg (imageName, ph)" using pull_inv_task [OF assms i] t by simp
  show ?thesis
  proof (cases ph)
    case (CachedRegistries url regs)
    with ok have "imageName \<in> set (js_split CHR '','' (images cfg))" "registry_of imageName \<noteq> ''docker.io''"
      by (auto simp: task_ok_def)
    then show ?thesis using False t CachedRegistries pull_inv_getRegistryAuth [OF assms i]
      by (simp add: resume_cached_def)
  qed (use False t assms in \<open>simp_all add: resume_cached_def\<close>)
qed

lemma pull_inv_deliver:
  assumes "pull_inv cfg ep tag tr st"
  shows "pull_inv cfg ep tag tr (deliver srv ep tag i st)"
proof (cases "halted st \<noteq> None \<or> length (tasks st) \<le> i")
  case True
  then show ?thesis using assms by (simp add: deliver_def)
next
  case False
  then have i: "i < length (tasks st)" by simp
  obtain imageName ph where t: "tasks st ! i = (imageName, ph)" by (cases "tasks st ! i")
  have ok: "task_ok cfg (imageName, ph)" using pull_inv_task [OF assms i] t by simp
  show ?thesis
  proof (cases ph)
    case (AwaitRegistries url)
    with ok have img: "imageName \<in> set (js_split CHR '','' (images cfg))" "registry_of imageName \<noteq> ''docker.io''"
      by (auto simp: task_ok_def)
    have "pull_inv cfg ep tag tr (getRegistryAuth ep tag i imageName url regs (st\<lparr>registries := Some regs\<rparr>))" for regs
      using pull_inv_getRegistryAuth [of cfg ep tag tr "st\<lparr>registries := Some regs\<rparr>" i imageName url regs]
        assms i img by (simp add: pull_inv_registries_update)
    then show ?thesis using False t AwaitRegistries assms
      by (simp add: deliver_def Let_def pull_inv_halted_update split: option.splits)
  next
    case AwaitImage
    have "\<forall>t \<in> set ((tasks st)[i := (imageName, Finished)]). task_ok cfg t"
    proof
      fix t assume "t \<in> set ((tasks st)[i := (imageName, Finished)])"
      then have "t = (imageName, Finished) \<or> t \<in> set (tasks st)"
        using set_update_subset_insert [of "tasks st" i "(imageName, Finished)"] by auto
      then show "task_ok cfg t"
        using assms ok by (auto simp: pull_inv_def task_ok_def)
    qed
    then have "pull_inv cfg ep tag tr (st\<lparr>tasks := (tasks st)[i := (imageName, Finished)]\<rparr>)"
      using assms by (simp add: pull_inv_def)
    then show ?thesis using False t AwaitImage assms
      by (simp add: deliver_def Let_def pull_inv_halted_update)
  qed (use False t assms in \<open>simp_all add: deliver_def\<close>)
qed

lemma pull_images_trace:
  assumes "pull_images cfg srv ep tag tr = (tr', res)"
  shows "\<exists>ext. tr' = tr @ ext \<and> (\<forall>r \<in> set ext. pull_ok cfg ep tag r \<and> images cfg \<noteq> [])"
proof (cases "images cfg = []")
  case True
  with assms show ?thesis by (simp add: pull_images_def)
next
  case False
  define st0 where "st0 = \<lparr>trace = tr, registries = None, tasks = [], halted = None\<rparr>"
  define st1 where "st1 = fold (start_pull ep tag) (js_split CHR '','' (images cfg)) st0"
  define st2 where "st2 = fold (resume_cached ep tag) [0..<length (tasks st1)] st1"
  define st3 where "st3 = fold (deliver srv ep tag) (arrival srv) st2"
  define st4 where "st4 = fold (deliver srv ep tag) ([0..<length (tasks st1)] @ [0..<length (tasks st1)]) st3"
  have "pull_inv cfg ep tag tr st0" by (simp add: st0_def pull_inv_def)
  then have "pull_inv cfg ep tag tr st1"
    unfolding st1_def by (rule fold_invariant) (rule pull_inv_start)
  then have "pull_inv cfg ep tag tr st2"
    unfolding st2_def by (rule fold_invariant) (rule pull_inv_resume)
  then have "pull_inv cfg ep tag tr st3"
    unfolding st3_def by (rule fold_invariant) (rule pull_inv_deliver)
  then have "pull_inv cfg ep tag tr st4"
    unfolding st4_def by (rule fold_invariant) (rule pull_inv_deliver)
  moreover have "tr' = trace st4"
    using assms False by (simp add: pull_images_def Let_def st4_def st3_def st2_def st1_def st0_def)
  ultimately show ?thesis using False by (auto simp: pull_inv_def)
qed

lemma authenticate_trace:
  "authenticate cfg srv tr = (tr', res) \<Longrightarrow>
     tr' = tr @ [PostAuth (portainerUsername cfg) (portainerPassword cfg)]"
  by (auto simp: authenticate_def Let_def split: if_splits)

lemma resolve_endpoint_trace:
  "resolve_endpoint cfg srv response tr = (tr', res) \<Longrightarrow> tr' = tr @ [GetEndpoints]"
  by (auto simp: resolve_endpoint_def Let_def split: if_splits option.splits)

lemma resolve_swarm_cases:
  assumes "resolve_swarm cfg srv localEp tr = (tr', res)"
  shows "(truthy (standalone cfg) \<and> tr' = tr \<and> res = Inr ([], None))
       \<or> (\<not> truthy (standalone cfg) \<and> tr' = tr @ [GetSwarm (ep_Id localEp)]
            \<and> (res = Inl Crash \<or> res = Inl Exit1
                \<or> res = Inr (data (swarm_response srv), Some (data (swarm_response srv)))))"
  using assms by (auto simp: resolve_swarm_def Let_def split: if_splits)

lemma create_stack_trace:
  assumes "create_stack cfg srv localEp swarmId composeFile env tr = (tr', out)"
  shows "tr' = tr @ [PostStacks (if truthy (standalone cfg) then 2 else 1) (ep_Id localEp)
            \<lparr>create_Name = stackName cfg, create_StackFileContent = composeFile,
             create_Env = env, create_Prune = True,
             create_SwarmID = (if truthy (standalone cfg) then None else Some swarmId)\<rparr>]"
  using assms by (auto simp: create_stack_def Let_def split: if_splits)

lemma update_stack_trace:
  assumes "update_stack cfg srv localEp s composeFile env tr = (tr', out)"
  shows "tr' = tr @ [PutStacks (stack_Id s) (ep_Id localEp)
            \<lparr>update_id = stack_Id s, update_StackFileContent = composeFile,
             update_Env = env, update_Prune = True,
             update_PullImage = truthy (forcePull cfg)\<rparr>]"
  using assms by (auto simp: update_stack_def Let_def split: if_splits)

lemma list_stacks_cases:
  assumes "list_stacks cfg srv f tr = (tr', res)"
  shows "tr' = tr @ [GetStacks f]"
    and "res = Inr found \<Longrightarrow> status (stacks_response srv) = 200 \<and>
           (\<exists>stacks. data (stacks_response srv) = Some stacks \<and>
              found = find (\<lambda>stack. Some (stack_Name stack) = stackName cfg) stacks)"
    and "res = Inl e \<Longrightarrow> e \<noteq> Done \<and>
           (status (stacks_response srv) \<noteq> 200 \<or> data (stacks_response srv) = None)"
  using assms
  by (auto simp: list_stacks_def Let_def validateStatus_def split: if_splits option.splits)

lemma late_ok_GetSwarm: "late_ok cfg srv tag (GetSwarm ep) = (\<not> truthy (standalone cfg))"
  by (simp add: late_ok_def)

lemma late_ok_GetStacks:
  "late_ok cfg srv tag (GetStacks f) =
     (f = (if truthy (standalone cfg) then None else Some (data (swarm_response srv))))"
  by (simp add: late_ok_def)

lemma reconcile_cases:
  assumes "reconcile cfg srv localEp tag tr = (tr', out)"
  shows "\<exists>ext. tr' = tr @ ext \<and> (\<forall>r \<in> set ext. late_ok cfg srv tag r) \<and> late_shape cfg srv ext"
proof -
  obtain tr1 res where sw: "resolve_swarm cfg srv localEp tr = (tr1, res)"
    by (cases "resolve_swarm cfg srv localEp tr")
  from resolve_swarm_cases [OF sw]
  obtain ext1 where e1: "tr1 = tr @ ext1" "\<forall>r \<in> set ext1. late_ok cfg srv tag r"
    "filter stack_write ext1 = []" "\<forall>f. GetStacks f \<notin> set ext1"
    "truthy (standalone cfg) \<or> (\<exists>ep. ext1 = [GetSwarm ep])"
    by (auto simp: late_ok_GetSwarm)
  show ?thesis
  proof (cases res)
    case (Inl e)
    with sw assms have "tr' = tr1" by (simp add: reconcile_def)
    with e1 show ?thesis by (auto simp: late_shape_def)
  next
    case (Inr p)
    obtain swarmId f where p: "p = (swarmId, f)" by (cases p)
    from resolve_swarm_cases [OF sw] Inr p
    have f: "f = (if truthy (standalone cfg) then None else Some (data (swarm_response srv)))"
      and sid: "\<not> truthy (standalone cfg) \<Longrightarrow> swarmId = data (swarm_response srv)"
      by auto
    obtain tr2 res2 where ls: "list_stacks cfg srv f tr1 = (tr2, res2)"
      by (cases "list_stacks cfg srv f tr1")
    define ext2 where "ext2 = ext1 @ [GetStacks f]"
    have tr2: "tr2 = tr @ ext2"
      using list_stacks_cases(1) [OF ls] e1(1) by (simp add: ext2_def)
    have ok2: "\<forall>r \<in> set ext2. late_ok cfg srv tag r"
      using e1(2) f by (auto simp: ext2_def late_ok_GetStacks)
    have nw2: "filter stack_write ext2 = []"
      using e1(3) by (simp add: ext2_def)
    have sf2: "truthy (standalone cfg) \<or> (\<exists>ep rest. ext2 = GetSwarm ep # rest)"
      using e1(5) by (auto simp: ext2_def)
    then have sf3: "truthy (standalone cfg) \<or> (\<exists>ep rest. ext2 @ more = GetSwarm ep # rest)" for more
      by auto
    show ?thesis
    proof (cases res2)
      case (Inl e)
      with sw ls \<open>res = Inr p\<close> p assms have "tr' = tr2" by (simp add: reconcile_def)
      moreover have "late_shape cfg srv ext2"
        using list_stacks_cases(3) [OF ls Inl] nw2 sf2 by (auto simp: late_shape_def)
      ultimately show ?thesis using tr2 ok2 by blast
    next
      case found: (Inr found)
      from list_stacks_cases(2) [OF ls found] obtain stacks where st:
        "status (stacks_response srv) = 200" "data (stacks_response srv) = Some stacks"
        "found = find (\<lambda>stack. Some (stack_Name stack) = stackName cfg) stacks"
        by auto
      show ?thesis
      proof (cases "composeFileContent cfg")
        case None
        with sw ls \<open>res = Inr p\<close> p found assms have "tr' = tr2" by (simp add: reconcile_def)
        moreover have "late_shape cfg srv ext2"
          using None nw2 sf2 by (auto simp: late_shape_def)
        ultimately show ?thesis using tr2 ok2 by blast
      next
        case (Some composeFile)
        have "\<exists>w. tr' = tr2 @ [w] \<and> late_ok cfg srv tag w \<and> stack_write w \<and> decided cfg stacks w"
        proof (cases found)
          case None
          with sw ls \<open>res = Inr p\<close> p found Some assms
          have "create_stack cfg srv localEp swarmId composeFile (composeEnvArray cfg tag) tr2
                  = (tr', out)"
            by (simp add: reconcile_def)
          from create_stack_trace [OF this] show ?thesis
            using sid Some None st(3) by (simp add: late_ok_def decided_def)
        next
          case s: (Some s)
          with sw ls \<open>res = Inr p\<close> p found Some assms
          have "update_stack cfg srv localEp s composeFile (composeEnvArray cfg tag) tr2
                  = (tr', out)"
            by (simp add: reconcile_def)
          from update_stack_trace [OF this] show ?thesis
            using Some s st(3) by (simp add: late_ok_def decided_def)
        qed
        then obtain w where w: "tr' = tr2 @ [w]" "late_ok cfg srv tag w" "stack_write w"
          "decided cfg stacks w" by blast
        have "tr' = tr @ (ext2 @ [w])" using w(1) tr2 by simp
        moreover have "\<forall>r \<in> set (ext2 @ [w]). late_ok cfg srv tag r" using ok2 w(2) by simp
        moreover have "filter stack_write (ext2 @ [w]) = [w]" using nw2 w(3) by simp
        then have "late_shape cfg srv (ext2 @ [w])"
          using st(1,2) w(4) sf3 [of "[w]"] unfolding late_shape_def by blast
        ultimately show ?thesis by blast
      qed
    qed
  qed
qed

lemma run_cases:
  assumes "run cfg srv = (tr, out)"
  shows "(tr = [] \<and> out = Exit1 \<and> (commitHash cfg = None \<or> commitHash cfg = Some []))
       \<or> (\<exists>commit early pulls late ep.
            commitHash cfg = Some commit \<and> commit \<noteq> [] \<and> tr = early @ pulls @ late \<and>
            early_ok cfg early \<and>
            (\<forall>r \<in> set pulls. pull_ok cfg ep (releaseTag_of cfg commit) r \<and> images cfg \<noteq> []) \<and>
            (\<forall>r \<in> set late. late_ok cfg srv (releaseTag_of cfg commit) r) \<and>
            late_shape cfg srv late)"
proof (cases "commitHash cfg = None \<or> commitHash cfg = Some []")
  case True
  with assms show ?thesis by (auto simp: run_def)
next
  case False
  then obtain commit where commit: "commitHash cfg = Some commit" "commit \<noteq> []" by auto
  define tag where "tag = releaseTag_of cfg commit"
  have empty_shape: "late_shape cfg srv []" by (simp add: late_shape_def)
  obtain tr1 res1 where au: "authenticate cfg srv [] = (tr1, res1)"
    by (cases "authenticate cfg srv []")
  have tr1: "tr1 = [PostAuth (portainerUsername cfg) (portainerPassword cfg)]"
    using authenticate_trace [OF au] by simp
  have goal: "?thesis" if "tr = early @ pulls @ late" "early_ok cfg early"
    "\<forall>r \<in> set pulls. pull_ok cfg ep tag r \<and> images cfg \<noteq> []"
    "\<forall>r \<in> set late. late_ok cfg srv tag r" "late_shape cfg srv late" for early pulls late ep
    using that commit unfolding tag_def by blast
  show ?thesis
  proof (cases res1)
    case (Inl e)
    with au commit assms have "tr = tr1 @ [] @ []" by (simp add: run_def)
    then show ?thesis using tr1 empty_shape by (intro goal [of tr1 "[]" "[]"]) (simp_all add: early_ok_def)
  next
    case response: (Inr response)
    obtain tr2 res2 where re: "resolve_endpoint cfg srv response tr1 = (tr2, res2)"
      by (cases "resolve_endpoint cfg srv response tr1")
    have tr2: "early_ok cfg tr2"
      using resolve_endpoint_trace [OF re] tr1 by (simp add: early_ok_def)
    show ?thesis
    proof (cases res2)
      case (Inl e)
      with au re response commit assms have "tr = tr2 @ [] @ []" by (simp add: run_def)
      then show ?thesis using tr2 empty_shape by (intro goal [of tr2 "[]" "[]"]) simp_all
    next
      case localEp: (Inr localEp)
      obtain tr3 res3 where pu: "pull_images cfg srv (ep_Id localEp) tag tr2 = (tr3, res3)"
        by (cases "pull_images cfg srv (ep_Id localEp) tag tr2")
      from pull_images_trace [OF pu] obtain pulls where pulls: "tr3 = tr2 @ pulls"
        "\<forall>r \<in> set pulls. pull_ok cfg (ep_Id localEp) tag r \<and> images cfg \<noteq> []" by blast
      show ?thesis
      proof (cases res3)
        case (Inl e)
        with au re pu response localEp commit assms have "tr = tr2 @ pulls @ []"
          using pulls(1) by (simp add: run_def tag_def)
        then show ?thesis using tr2 pulls(2) empty_shape
          by (intro goal [of tr2 pulls "[]" "ep_Id localEp"]) simp_all
      next
        case (Inr u)
        with au re pu response localEp commit assms
        have "reconcile cfg srv localEp tag tr3 = (tr, out)"
          by (simp add: run_def tag_def)
        from reconcile_cases [OF this] obtain late where late: "tr = tr3 @ late"
          "\<forall>r \<in> set late. late_ok cfg srv tag r" "late_shape cfg srv late" by blast
        show ?thesis using tr2 pulls late
          by (intro goal [of tr2 pulls late "ep_Id localEp"]) simp_all
      qed
    qed
  qed
qed

subsection \<open>Requests for the registry list\<close>

lemma start_pull_fetches:
  assumes "registries st = None"
  shows "registries (start_pull ep tag imageName st) = None"
    and "registry_fetches (trace (start_pull ep tag imageName st)) =
           registry_fetches (trace st) + (if registry_of imageName \<noteq> ''docker.io'' then 1 else 0)"
  using assms by (simp_all add: start_pull_def Let_def registry_fetches_def)








subsection \<open>The pull stage runs to its end\<close>

lemma task_progress_mono:
  assumes "task_progress srv ep tag tr i t" and "set tr \<subseteq> set tr'"
  shows "task_progress srv ep tag tr' i t"
  using assms by (auto simp: task_progress_def pulled_def split: phase.splits)

lemma progress_inv_start:
  assumes "progress_inv srv ep tag st" and "registries st = None"
  shows "progress_inv srv ep tag (start_pull ep tag imageName st)"
    and "map fst (tasks (start_pull ep tag imageName st)) = map fst (tasks st) @ [imageName]"
proof -
  show "map fst (tasks (start_pull ep tag imageName st)) = map fst (tasks st) @ [imageName]"
    using assms(2) by (simp add: start_pull_def Let_def)
  show "progress_inv srv ep tag (start_pull ep tag imageName st)"
  proof (cases "registry_of imageName = ''docker.io''")
    case True
    define tr' where "tr' = trace st @ [PostImagesCreate ep imageName tag None]"
    have st': "start_pull ep tag imageName st
                 = st\<lparr>trace := tr', tasks := tasks st @ [(imageName, AwaitImage)]\<rparr>"
      using True by (simp add: start_pull_def tr'_def)
    have new: "task_progress srv ep tag tr' (length (tasks st)) (imageName, AwaitImage)"
      using True by (auto simp: task_progress_def registry_answered_def pulled_def tr'_def)
    have old: "task_progress srv ep tag tr' i (tasks st ! i)" if "i < length (tasks st)" for i
      using assms(1) that task_progress_mono [of srv ep tag "trace st" i "tasks st ! i" tr']
      by (auto simp: progress_inv_def tr'_def)
    show ?thesis
      unfolding st' progress_inv_def using old new
      by (auto simp: nth_append less_Suc_eq)
  next
    case False
    have st': "start_pull ep tag imageName st
                 = st\<lparr>trace := trace st @ [GetRegistries],
                      tasks := tasks st @ [(imageName, AwaitRegistries (registry_of imageName))]\<rparr>"
      using False assms(2) by (simp add: start_pull_def)
    have new: "task_progress srv ep tag (trace st @ [GetRegistries]) (length (tasks st))
                 (imageName, AwaitRegistries (registry_of imageName))"
      using False by (simp add: task_progress_def)
    have old: "task_progress srv ep tag (trace st @ [GetRegistries]) i (tasks st ! i)"
      if "i < length (tasks st)" for i
      using assms(1) that
        task_progress_mono [of srv ep tag "trace st" i "tasks st ! i" "trace st @ [GetRegistries]"]
      by (auto simp: progress_inv_def)
    show ?thesis
      unfolding st' progress_inv_def using old new
      by (auto simp: nth_append less_Suc_eq)
  qed
qed

lemma fold_start_pull_progress:
  assumes "progress_inv srv ep tag st" and "registries st = None"
  shows "progress_inv srv ep tag (fold (start_pull ep tag) imgs st)
       \<and> map fst (tasks (fold (start_pull ep tag) imgs st)) = map fst (tasks st) @ imgs"
  using assms
proof (induction imgs arbitrary: st)
  case Nil
  then show ?case by simp
next
  case (Cons imageName imgs)
  have r: "registries (start_pull ep tag imageName st) = None"
    using start_pull_fetches(1) [OF Cons.prems(2)] .
  from Cons.IH [OF progress_inv_start(1) [OF Cons.prems] r]
    progress_inv_start(2) [OF Cons.prems]
  show ?case by simp
qed


lemma progress_no_cached:
  assumes "progress_inv srv ep tag st" and "i < length (tasks st)"
  shows "tasks st ! i \<noteq> (imageName, CachedRegistries url regs)"
    and "rank (snd (tasks st ! i)) \<le> 2"
proof -
  from assms have t: "task_progress srv ep tag (trace st) i (tasks st ! i)"
    by (simp add: progress_inv_def)
  then show "tasks st ! i \<noteq> (imageName, CachedRegistries url regs)"
    by (auto simp: task_progress_def)
  from t show "rank (snd (tasks st ! i)) \<le> 2"
    by (cases "snd (tasks st ! i)") (simp_all add: task_progress_def)
qed

lemma resume_cached_noop:
  assumes "progress_inv srv ep tag st"
  shows "resume_cached ep tag i st = st"
proof (cases "halted st \<noteq> None \<or> length (tasks st) \<le> i")
  case True
  then show ?thesis by (simp add: resume_cached_def)
next
  case False
  then have i: "i < length (tasks st)" by simp
  obtain imageName ph where t: "tasks st ! i = (imageName, ph)" by (cases "tasks st ! i")
  show ?thesis
  proof (cases ph)
    case (CachedRegistries url regs)
    with t progress_no_cached(1) [OF assms i] show ?thesis by simp
  qed (use False t in \<open>simp_all add: resume_cached_def\<close>)
qed

text \<open>What the arrival of a response does, case by case.\<close>

lemma deliver_cases_disj:
  "deliver srv ep tag i st = st \<and>
     (halted st \<noteq> None \<or> length (tasks st) \<le> i
      \<or> (\<exists>imageName. tasks st ! i = (imageName, Finished))
      \<or> (\<exists>imageName url regs. tasks st ! i = (imageName, CachedRegistries url regs)))
   \<or> (halted (deliver srv ep tag i st) \<noteq> None \<and>
       trace (deliver srv ep tag i st) = trace st \<and>
       tasks (deliver srv ep tag i st) = tasks st)
   \<or> (halted st = None \<and> i < length (tasks st) \<and>
       (\<exists>imageName url regs reg.
          tasks st ! i = (imageName, AwaitRegistries url) \<and>
          status (registries_response srv i) = 200 \<and>
          data (registries_response srv i) = Some regs \<and>
          find (\<lambda>reg. reg_URL reg = url) regs = Some reg \<and>
          deliver srv ep tag i st =
            st\<lparr>registries := Some regs,
               trace := trace st @ [PostImagesCreate ep imageName tag (Some (reg_Id reg))],
               tasks := (tasks st)[i := (imageName, AwaitImage)]\<rparr>))
   \<or> (halted st = None \<and> i < length (tasks st) \<and>
       (\<exists>imageName.
          tasks st ! i = (imageName, AwaitImage) \<and>
          status (image_response srv i) = 200 \<and>
          deliver srv ep tag i st = st\<lparr>tasks := (tasks st)[i := (imageName, Finished)]\<rparr>))"
proof (cases "halted st \<noteq> None \<or> length (tasks st) \<le> i")
  case True
  then have "deliver srv ep tag i st = st" by (simp add: deliver_def)
  with True show ?thesis by blast
next
  case False
  then have h: "halted st = None" and i: "i < length (tasks st)" by simp_all
  obtain imageName ph where t: "tasks st ! i = (imageName, ph)" by (cases "tasks st ! i")
  show ?thesis
  proof (cases ph)
    case (AwaitRegistries url)
    let ?r = "registries_response srv i"
    show ?thesis
    proof (cases "validateStatus (status ?r) \<and> status ?r = 200 \<and> data ?r \<noteq> None")
      case False
      then have "halted (deliver srv ep tag i st) \<noteq> None \<and>
          trace (deliver srv ep tag i st) = trace st \<and>
          tasks (deliver srv ep tag i st) = tasks st"
        using h i t AwaitRegistries by (auto simp: deliver_def Let_def)
      then show ?thesis by blast
    next
      case True
      then obtain regs where regs: "data ?r = Some regs" by auto
      show ?thesis
      proof (cases "find (\<lambda>reg. reg_URL reg = url) regs")
        case None
        then have "halted (deliver srv ep tag i st) \<noteq> None \<and>
            trace (deliver srv ep tag i st) = trace st \<and>
            tasks (deliver srv ep tag i st) = tasks st"
          using h i t AwaitRegistries True regs
          by (simp add: deliver_def Let_def getRegistryAuth_def validateStatus_def)
        then show ?thesis by blast
      next
        case (Some reg)
        then have "deliver srv ep tag i st =
            st\<lparr>registries := Some regs,
               trace := trace st @ [PostImagesCreate ep imageName tag (Some (reg_Id reg))],
               tasks := (tasks st)[i := (imageName, AwaitImage)]\<rparr>"
          using h i t AwaitRegistries True regs
          by (simp add: deliver_def Let_def getRegistryAuth_def validateStatus_def)
        with h i t AwaitRegistries True regs Some show ?thesis by blast
      qed
    qed
  next
    case (CachedRegistries url regs)
    with h i t have "deliver srv ep tag i st = st" by (simp add: deliver_def)
    with t CachedRegistries show ?thesis by blast
  next
    case AwaitImage
    let ?r = "image_response srv i"
    show ?thesis
    proof (cases "validateStatus (status ?r) \<and> status ?r = 200")
      case False
      then have "halted (deliver srv ep tag i st) \<noteq> None \<and>
          trace (deliver srv ep tag i st) = trace st \<and>
          tasks (deliver srv ep tag i st) = tasks st"
        using h i t AwaitImage by (auto simp: deliver_def Let_def)
      then show ?thesis by blast
    next
      case True
      then have "deliver srv ep tag i st = st\<lparr>tasks := (tasks st)[i := (imageName, Finished)]\<rparr>"
        using h i t AwaitImage by (simp add: deliver_def Let_def validateStatus_def)
      with h i t AwaitImage True show ?thesis by blast
    qed
  next
    case Finished
    with h i t have "deliver srv ep tag i st = st" by (simp add: deliver_def)
    with t Finished show ?thesis by blast
  qed
qed


lemma deliver_cases [case_names same halt registries image]:
  obtains
    (same) "deliver srv ep tag i st = st"
      "halted st \<noteq> None \<or> length (tasks st) \<le> i
        \<or> (\<exists>imageName. tasks st ! i = (imageName, Finished))
        \<or> (\<exists>imageName url regs. tasks st ! i = (imageName, CachedRegistries url regs))"
  | (halt) "halted (deliver srv ep tag i st) \<noteq> None"
      "trace (deliver srv ep tag i st) = trace st"
      "tasks (deliver srv ep tag i st) = tasks st"
  | (registries) imageName url regs reg where
      "halted st = None" "i < length (tasks st)"
      "tasks st ! i = (imageName, AwaitRegistries url)"
      "status (registries_response srv i) = 200"
      "data (registries_response srv i) = Some regs"
      "find (\<lambda>reg. reg_URL reg = url) regs = Some reg"
      "deliver srv ep tag i st =
         st\<lparr>registries := Some regs,
            trace := trace st @ [PostImagesCreate ep imageName tag (Some (reg_Id reg))],
            tasks := (tasks st)[i := (imageName, AwaitImage)]\<rparr>"
  | (image) imageName where
      "halted st = None" "i < length (tasks st)"
      "tasks st ! i = (imageName, AwaitImage)"
      "status (image_response srv i) = 200"
      "deliver srv ep tag i st = st\<lparr>tasks := (tasks st)[i := (imageName, Finished)]\<rparr>"
  using deliver_cases_disj [of srv ep tag i st] by blast

lemma deliver_halted:
  assumes "halted st \<noteq> None"
  shows "deliver srv ep tag i st = st"
  using assms by (simp add: deliver_def)

lemma fold_deliver_halted:
  assumes "halted st \<noteq> None"
  shows "fold (deliver srv ep tag) is st = st"
  using assms by (induction "is") (simp_all add: deliver_halted)

lemma deliver_not_halted:
  assumes "halted (deliver srv ep tag i st) = None"
  shows "halted st = None"
proof (rule ccontr)
  assume h: "halted st \<noteq> None"
  then have "deliver srv ep tag i st = st" by (rule deliver_halted)
  with assms h show False by simp
qed

lemma fold_deliver_not_halted:
  assumes "halted (fold (deliver srv ep tag) is st) = None"
  shows "halted st = None"
proof (rule ccontr)
  assume h: "halted st \<noteq> None"
  then have "fold (deliver srv ep tag) is st = st" by (rule fold_deliver_halted)
  with assms h show False by simp
qed

lemma update_same_name:
  assumes "xs ! i = (imageName, ph')" and "i < length xs"
  shows "map fst (xs[i := (imageName, ph)]) = map fst xs"
proof -
  have "map fst (xs[i := (imageName, ph)]) = (map fst xs)[i := imageName]"
    by (simp add: map_update)
  also have "\<dots> = (map fst xs)[i := map fst xs ! i]" using assms by simp
  also have "\<dots> = map fst xs" by (rule list_update_id)
  finally show ?thesis .
qed

lemma deliver_names:
  "map fst (tasks (deliver srv ep tag i st)) = map fst (tasks st)"
proof (cases rule: deliver_cases [of srv ep tag i st])
  case same
  then show ?thesis by simp
next
  case halt
  then show ?thesis by simp
next
  case (registries imageName url regs reg)
  then show ?thesis by (simp add: update_same_name)
next
  case (image imageName)
  then show ?thesis by (simp add: update_same_name)
qed

lemma deliver_progress:
  assumes "progress_inv srv ep tag st"
  shows "progress_inv srv ep tag (deliver srv ep tag i st)"
proof (cases rule: deliver_cases [of srv ep tag i st])
  case same
  with assms show ?thesis by simp
next
  case halt
  with assms show ?thesis by (simp add: progress_inv_def)
next
  case (registries imageName url regs reg)
  define tr' where "tr' = trace st @ [PostImagesCreate ep imageName tag (Some (reg_Id reg))]"
  from assms registries(2,3) have "url = registry_of imageName \<and> url \<noteq> ''docker.io''"
    by (auto simp: progress_inv_def task_progress_def)
  with registries(4,5,6) have new: "task_progress srv ep tag tr' i (imageName, AwaitImage)"
    by (auto simp: task_progress_def registry_answered_def pulled_def tr'_def)
  have old: "task_progress srv ep tag tr' j (tasks st ! j)" if "j < length (tasks st)" for j
    using assms that task_progress_mono [of srv ep tag "trace st" j "tasks st ! j" tr']
    by (auto simp: progress_inv_def tr'_def)
  have "task_progress srv ep tag tr' j ((tasks st)[i := (imageName, AwaitImage)] ! j)"
    if "j < length (tasks st)" for j
    using old [OF that] new registries(2) that by (cases "j = i") simp_all
  then show ?thesis
    unfolding registries(7) progress_inv_def by (simp add: tr'_def)
next
  case (image imageName)
  from assms image(2,3)
  have "registry_answered srv i imageName \<and> pulled ep tag (trace st) imageName"
    by (auto simp: progress_inv_def task_progress_def)
  with image(4) have new: "task_progress srv ep tag (trace st) i (imageName, Finished)"
    by (simp add: task_progress_def)
  have "task_progress srv ep tag (trace st) j ((tasks st)[i := (imageName, Finished)] ! j)"
    if "j < length (tasks st)" for j
    using assms new image(2) that by (cases "j = i") (simp_all add: progress_inv_def)
  then show ?thesis
    unfolding image(5) progress_inv_def by simp
qed

lemma deliver_rank:
  assumes "progress_inv srv ep tag st" and "halted (deliver srv ep tag i st) = None"
    and "i < length (tasks st)" and "j < length (tasks st)"
  shows "rank (snd (tasks (deliver srv ep tag i st) ! j))
           \<le> (if j = i then rank (snd (tasks st ! j)) - 1 else rank (snd (tasks st ! j)))"
proof (cases rule: deliver_cases [of srv ep tag i st])
  case same
  with assms(2,3) progress_no_cached(1) [OF assms(1,3)]
  obtain imageName where "tasks st ! i = (imageName, Finished)" by auto
  with same(1) show ?thesis by simp
next
  case halt
  with assms(2) show ?thesis by simp
next
  case (registries imageName url regs reg)
  with assms(4) show ?thesis by (simp add: nth_list_update)
next
  case (image imageName)
  with assms(4) show ?thesis by (simp add: nth_list_update)
qed

lemma deliver_pass:
  assumes "progress_inv srv ep tag st"
    and "halted (fold (deliver srv ep tag) [0..<m] st) = None"
    and "m \<le> length (tasks st)"
    and "\<forall>j < length (tasks st). rank (snd (tasks st ! j)) \<le> Suc k"
  shows "\<forall>j < length (tasks st).
           rank (snd (tasks (fold (deliver srv ep tag) [0..<m] st) ! j))
             \<le> (if j < m then k else Suc k)"
  using assms(2,3)
proof (induction m)
  case 0
  with assms(4) show ?case by simp
next
  case (Suc m)
  let ?st = "fold (deliver srv ep tag) [0..<m] st"
  have step: "fold (deliver srv ep tag) [0..<Suc m] st = deliver srv ep tag m ?st" by simp
  have inv: "progress_inv srv ep tag ?st"
    using assms(1) by (rule fold_invariant) (rule deliver_progress)
  have "map fst (tasks ?st) = map fst (tasks st)"
    by (rule fold_invariant) (simp_all add: deliver_names)
  then have len: "length (tasks ?st) = length (tasks st)" by (metis length_map)
  have nh: "halted (deliver srv ep tag m ?st) = None" using Suc.prems(1) step by simp
  then have "halted ?st = None" by (rule deliver_not_halted)
  with Suc have IH: "\<forall>j < length (tasks st).
           rank (snd (tasks ?st ! j)) \<le> (if j < m then k else Suc k)" by simp
  show ?case
  proof (intro allI impI)
    fix j assume j: "j < length (tasks st)"
    have m: "m < length (tasks ?st)" using Suc.prems(2) len by simp
    from deliver_rank [OF inv nh m, of j] j len
    have "rank (snd (tasks (deliver srv ep tag m ?st) ! j))
            \<le> (if j = m then rank (snd (tasks ?st ! j)) - 1 else rank (snd (tasks ?st ! j)))"
      by simp
    with IH j show "rank (snd (tasks (fold (deliver srv ep tag) [0..<Suc m] st) ! j))
             \<le> (if j < Suc m then k else Suc k)"
      unfolding step by (auto simp: less_Suc_eq split: if_splits)
  qed
qed


lemma fold_deliver_progress:
  assumes "progress_inv srv ep tag st"
  shows "progress_inv srv ep tag (fold (deliver srv ep tag) is st)"
    and "map fst (tasks (fold (deliver srv ep tag) is st)) = map fst (tasks st)"
proof -
  show "progress_inv srv ep tag (fold (deliver srv ep tag) is st)"
    using assms by (rule fold_invariant) (rule deliver_progress)
  show "map fst (tasks (fold (deliver srv ep tag) is st)) = map fst (tasks st)"
    by (rule fold_invariant) (simp_all add: deliver_names)
qed

text \<open>Two rounds of arrivals bring every pull to its end, unless the process ends first.\<close>

lemma two_rounds_finish:
  assumes "progress_inv srv ep tag st"
    and "halted (fold (deliver srv ep tag)
                   ([0..<length (tasks st)] @ [0..<length (tasks st)]) st) = None"
    and "j < length (tasks st)"
  shows "snd (tasks (fold (deliver srv ep tag)
                      ([0..<length (tasks st)] @ [0..<length (tasks st)]) st) ! j) = Finished"
proof -
  let ?n = "length (tasks st)"
  let ?st1 = "fold (deliver srv ep tag) [0..<?n] st"
  let ?st2 = "fold (deliver srv ep tag) [0..<?n] ?st1"
  have two: "fold (deliver srv ep tag) ([0..<?n] @ [0..<?n]) st = ?st2" by simp
  have inv1: "progress_inv srv ep tag ?st1" by (rule fold_deliver_progress(1) [OF assms(1)])
  have len1: "length (tasks ?st1) = ?n"
    using fold_deliver_progress(2) [OF assms(1), of "[0..<?n]"] by (metis length_map)
  have h2: "halted ?st2 = None" using assms(2) two by simp
  then have h1: "halted ?st1 = None" by (rule fold_deliver_not_halted)
  have r0: "\<forall>j < ?n. rank (snd (tasks st ! j)) \<le> Suc 1"
    using progress_no_cached(2) [OF assms(1)] by (simp add: numeral_2_eq_2)
  from deliver_pass [OF assms(1) h1 _ r0]
  have r1: "\<forall>j < length (tasks ?st1). rank (snd (tasks ?st1 ! j)) \<le> Suc 0"
    by (simp add: len1)
  have h2': "halted (fold (deliver srv ep tag) [0..<length (tasks ?st1)] ?st1) = None"
    using h2 len1 by simp
  from deliver_pass [OF inv1 h2' order_refl r1]
  have "\<forall>j < ?n. rank (snd (tasks ?st2 ! j)) \<le> 0" by (simp add: len1)
  with assms(3) have "rank (snd (tasks ?st2 ! j)) = 0" by simp
  then have "snd (tasks ?st2 ! j) = Finished" by (cases "snd (tasks ?st2 ! j)") simp_all
  with two show ?thesis by simp
qed

text \<open>
  When the pull stage ends well, every image of the list has been pulled: its pull
  request was issued and answered with status 200, and for an image of a private
  registry the registry list was answered with status 200 and holds the registry.
\<close>

lemma pull_images_success:
  assumes "pull_images cfg srv ep tag tr = (tr', Inr u)" and "images cfg \<noteq> []"
    and "i < length (js_split CHR '','' (images cfg))"
  shows "pulled ep tag tr' (js_split CHR '','' (images cfg) ! i)"
    and "status (image_response srv i) = 200"
    and "registry_answered srv i (js_split CHR '','' (images cfg) ! i)"
proof -
  define imgs where "imgs = js_split CHR '','' (images cfg)"
  define st0 where "st0 = \<lparr>trace = tr, registries = None, tasks = [], halted = None\<rparr>"
  define st1 where "st1 = fold (start_pull ep tag) imgs st0"
  define st2 where "st2 = fold (resume_cached ep tag) [0..<length (tasks st1)] st1"
  define st3 where "st3 = fold (deliver srv ep tag) (arrival srv) st2"
  define st4 where
    "st4 = fold (deliver srv ep tag) ([0..<length (tasks st1)] @ [0..<length (tasks st1)]) st3"
  have res: "tr' = trace st4" "halted st4 = None"
    using assms(1,2)
    by (auto simp: pull_images_def Let_def st4_def st3_def st2_def st1_def st0_def imgs_def
             split: option.splits)
  have "progress_inv srv ep tag st0" by (simp add: st0_def progress_inv_def)
  from fold_start_pull_progress [OF this, of imgs]
  have inv1: "progress_inv srv ep tag st1" and names1: "map fst (tasks st1) = imgs"
    by (simp_all add: st1_def st0_def)
  have "st2 = st1"
    unfolding st2_def by (rule fold_invariant) (simp_all add: resume_cached_noop [OF inv1])
  with inv1 names1 have inv2: "progress_inv srv ep tag st2" and names2: "map fst (tasks st2) = imgs"
    by simp_all
  have inv3: "progress_inv srv ep tag st3" and names3: "map fst (tasks st3) = imgs"
    using fold_deliver_progress [OF inv2, of "arrival srv"] names2 by (simp_all add: st3_def)
  have len: "length (tasks st1) = length imgs" "length (tasks st3) = length imgs"
    using names1 names3 by (metis length_map)+
  have st4: "st4 = fold (deliver srv ep tag)
                     ([0..<length (tasks st3)] @ [0..<length (tasks st3)]) st3"
    by (simp add: st4_def len)
  have inv4: "progress_inv srv ep tag st4"
    unfolding st4 by (rule fold_deliver_progress(1) [OF inv3])
  have names4: "map fst (tasks st4) = imgs"
    unfolding st4 by (simp only: fold_deliver_progress(2) [OF inv3] names3)
  have i: "i < length (tasks st3)" "i < length (tasks st4)"
    using assms(3) len(2) names4 by (simp_all add: imgs_def) (metis length_map)
  have fin: "snd (tasks st4 ! i) = Finished"
    using two_rounds_finish [OF inv3 _ i(1)] res(2) by (simp add: st4)
  have name: "fst (tasks st4 ! i) = imgs ! i"
    using names4 i(2) by (metis nth_map)
  from inv4 i(2) have "task_progress srv ep tag (trace st4) i (tasks st4 ! i)"
    by (simp add: progress_inv_def)
  with fin name res(1)
  show "pulled ep tag tr' (js_split CHR '','' (images cfg) ! i)"
    and "status (image_response srv i) = 200"
    and "registry_answered srv i (js_split CHR '','' (images cfg) ! i)"
    by (simp_all add: task_progress_def imgs_def)
qed

subsection \<open>Every request of a run\<close>

lemma run_request_cases:
  assumes "r \<in> set (fst (run cfg srv))"
  shows "\<exists>commit. commitHash cfg = Some commit \<and> commit \<noteq> [] \<and>
           ((\<exists>u p. r = PostAuth u p) \<or> r = GetEndpoints
            \<or> (\<exists>ep. pull_ok cfg ep (releaseTag_of cfg commit) r) \<and> images cfg \<noteq> []
            \<or> late_ok cfg srv (releaseTag_of cfg commit) r)"
proof -
  have "run cfg srv = (fst (run cfg srv), snd (run cfg srv))" by simp
  moreover have "fst (run cfg srv) \<noteq> []" using assms by auto
  ultimately have "\<exists>commit early pulls late ep.
            commitHash cfg = Some commit \<and> commit \<noteq> [] \<and>
            fst (run cfg srv) = early @ pulls @ late \<and> early_ok cfg early \<and>
            (\<forall>r \<in> set pulls. pull_ok cfg ep (releaseTag_of cfg commit) r \<and> images cfg \<noteq> []) \<and>
            (\<forall>r \<in> set late. late_ok cfg srv (releaseTag_of cfg commit) r) \<and>
            late_shape cfg srv late"
    using run_cases [of cfg srv "fst (run cfg srv)" "snd (run cfg srv)"] by blast
  then obtain commit early pulls late ep where c: "commitHash cfg = Some commit" "commit \<noteq> []"
    and tr: "fst (run cfg srv) = early @ pulls @ late"
    and early: "early_ok cfg early"
    and pulls: "\<forall>r \<in> set pulls. pull_ok cfg ep (releaseTag_of cfg commit) r \<and> images cfg \<noteq> []"
    and late: "\<forall>r \<in> set late. late_ok cfg srv (releaseTag_of cfg commit) r"
    by blast
  from assms tr consider "r \<in> set early" | "r \<in> set pulls" | "r \<in> set late" by auto
  then have "(\<exists>u p. r = PostAuth u p) \<or> r = GetEndpoints
            \<or> (\<exists>ep. pull_ok cfg ep (releaseTag_of cfg commit) r) \<and> images cfg \<noteq> []
            \<or> late_ok cfg srv (releaseTag_of cfg commit) r"
  proof cases
    case 1
    with early show ?thesis by (auto simp: early_ok_def)
  next
    case 2
    with pulls show ?thesis by blast
  next
    case 3
    with late show ?thesis by blast
  qed
  with c show ?thesis by blast
qed

lemma late_ok_compose_env:
  assumes "late_ok cfg srv tag r" and "compose_env r = Some env"
  shows "env = composeEnvArray cfg tag"
  using assms by (cases r) (auto simp: late_ok_def)

lemma compose_env_in_run:
  assumes "r \<in> set (fst (run cfg srv))" and "compose_env r = Some env"
  shows "\<exists>commit. commitHash cfg = Some commit \<and> commit \<noteq> []
           \<and> env = composeEnvArray cfg (releaseTag_of cfg commit)"
proof -
  from run_request_cases [OF assms(1)] obtain commit where c:
    "commitHash cfg = Some commit" "commit \<noteq> []"
    "(\<exists>u p. r = PostAuth u p) \<or> r = GetEndpoints
       \<or> (\<exists>ep. pull_ok cfg ep (releaseTag_of cfg commit) r) \<and> images cfg \<noteq> []
       \<or> late_ok cfg srv (releaseTag_of cfg commit) r" by blast
  from c(3) assms(2) have "late_ok cfg srv (releaseTag_of cfg commit) r"
    by (auto simp: pull_ok_def)
  from late_ok_compose_env [OF this assms(2)] c(1,2) show ?thesis by simp
qed

lemma truthy_or_false: "truthy (or_false v) = (\<exists>s. v = Some s \<and> s \<noteq> [])"
  by (cases v) (simp_all add: or_false_def)

subsection \<open>The example runs, evaluated\<close>

lemma run_demo: "run demo_cfg demo_srv = (demo_trace, Done)"
  by code_simp

lemma run_standalone:
  "run standalone_cfg fresh_srv =
     ([PostAuth (Some ''ci'') (Some ''pw''), GetEndpoints, GetStacks None, demo_create], Done)"
  by code_simp

section \<open>The claims of the specification\<close>

subsection \<open>Create or update\<close>

lemma pulls_no_stack_write:
  assumes "\<forall>r \<in> set pulls. pull_ok cfg ep tag r \<and> images cfg \<noteq> []"
  shows "filter stack_write pulls = []" and "GetStacks f \<notin> set pulls"
    and "GetSwarm e \<notin> set pulls"
proof -
  have "\<not> stack_write r \<and> r \<noteq> GetStacks f \<and> r \<noteq> GetSwarm e" if "r \<in> set pulls" for r
  proof -
    from that assms have "pull_ok cfg ep tag r" by blast
    then show ?thesis unfolding pull_ok_def by (cases r) simp_all
  qed
  then show "filter stack_write pulls = []" and "GetStacks f \<notin> set pulls"
    and "GetSwarm e \<notin> set pulls"
    by (auto simp: filter_empty_conv)
qed

lemma early_no_stack_write:
  assumes "early_ok cfg early"
  shows "filter stack_write early = []" and "GetStacks f \<notin> set early"
    and "GetSwarm e \<notin> set early"
  using assms unfolding early_ok_def by auto

lemma run_parts:
  assumes "run cfg srv = (tr, out)" and "tr \<noteq> []"
  shows "\<exists>commit early pulls late ep.
            commitHash cfg = Some commit \<and> commit \<noteq> [] \<and>
            tr = early @ pulls @ late \<and> early_ok cfg early \<and>
            (\<forall>r \<in> set pulls. pull_ok cfg ep (releaseTag_of cfg commit) r \<and> images cfg \<noteq> []) \<and>
            (\<forall>r \<in> set late. late_ok cfg srv (releaseTag_of cfg commit) r) \<and>
            late_shape cfg srv late"
  using run_cases [OF assms(1)] assms(2) by blast






subsection \<open>Failing responses\<close>

lemma pull_ok_not_reconcile:
  "pull_ok cfg ep tag r \<Longrightarrow> \<not> reconcile_request r"
  by (auto simp: pull_ok_def)

text \<open>A run that issues a request of the last stage has passed every stage before.\<close>

lemma run_reaches_reconcile:
  assumes "run cfg srv = (tr, out)" and "r \<in> set tr" and "reconcile_request r"
  shows "\<exists>commit response tr1 localEp tr2 tr3 u.
           commitHash cfg = Some commit \<and> commit \<noteq> [] \<and>
           authenticate cfg srv [] = (tr1, Inr response) \<and>
           resolve_endpoint cfg srv response tr1 = (tr2, Inr localEp) \<and>
           pull_images cfg srv (ep_Id localEp) (releaseTag_of cfg commit) tr2 = (tr3, Inr u) \<and>
           reconcile cfg srv localEp (releaseTag_of cfg commit) tr3 = (tr, out)"
proof (cases "commitHash cfg = None \<or> commitHash cfg = Some []")
  case True
  with assms(1,2) show ?thesis by (auto simp: run_def)
next
  case False
  then obtain commit where commit: "commitHash cfg = Some commit" "commit \<noteq> []" by auto
  define tag where "tag = releaseTag_of cfg commit"
  obtain tr1 res1 where au: "authenticate cfg srv [] = (tr1, res1)"
    by (cases "authenticate cfg srv []")
  have tr1: "tr1 = [PostAuth (portainerUsername cfg) (portainerPassword cfg)]"
    using authenticate_trace [OF au] by simp
  show ?thesis
  proof (cases res1)
    case (Inl e)
    with au commit assms(1) have "tr = tr1" by (simp add: run_def)
    with tr1 assms(2,3) show ?thesis by simp
  next
    case response: (Inr response)
    obtain tr2 res2 where re: "resolve_endpoint cfg srv response tr1 = (tr2, res2)"
      by (cases "resolve_endpoint cfg srv response tr1")
    have tr2: "tr2 = [PostAuth (portainerUsername cfg) (portainerPassword cfg), GetEndpoints]"
      using resolve_endpoint_trace [OF re] tr1 by simp
    show ?thesis
    proof (cases res2)
      case (Inl e)
      with au re response commit assms(1) have "tr = tr2" by (simp add: run_def)
      with tr2 assms(2,3) show ?thesis by auto
    next
      case localEp: (Inr localEp)
      obtain tr3 res3 where pu: "pull_images cfg srv (ep_Id localEp) tag tr2 = (tr3, res3)"
        by (cases "pull_images cfg srv (ep_Id localEp) tag tr2")
      from pull_images_trace [OF pu] obtain pulls where pulls: "tr3 = tr2 @ pulls"
        "\<forall>r \<in> set pulls. pull_ok cfg (ep_Id localEp) tag r \<and> images cfg \<noteq> []" by blast
      show ?thesis
      proof (cases res3)
        case (Inl e)
        with au re pu response localEp commit assms(1) have "tr = tr3"
          by (simp add: run_def tag_def)
        with assms(2) pulls(1) tr2 have "r = PostAuth (portainerUsername cfg) (portainerPassword cfg)
            \<or> r = GetEndpoints \<or> r \<in> set pulls" by auto
        with assms(3) pulls(2) pull_ok_not_reconcile show ?thesis by auto
      next
        case (Inr u)
        with au re pu response localEp commit assms(1)
        have "reconcile cfg srv localEp tag tr3 = (tr, out)"
          by (simp add: run_def tag_def)
        with commit au re pu response localEp Inr show ?thesis
          unfolding tag_def by blast
      qed
    qed
  qed
qed

lemma reconcile_swarm_failed:
  assumes "reconcile cfg srv localEp tag tr = (tr', out)"
    and "\<not> truthy (standalone cfg)" and "status (swarm_response srv) \<noteq> 200"
  shows "tr' = tr @ [GetSwarm (ep_Id localEp)]"
  using assms by (auto simp: reconcile_def resolve_swarm_def Let_def split: if_splits)

text \<open>
  A response with a status other than 200 ends the run at every stage but the endpoint
  stage: after such an answer to \<open>/auth\<close> nothing else is requested; after such an
  answer to a pull or to a registry-list request of a private image, or to the swarm
  request in clustered mode, there is no request for the stacks; after such an answer
  to the stack list there is no stack write.
\<close>

lemma failing_response_halts:
  assumes "run cfg srv = (tr, out)"
  shows "status (auth_response srv) \<noteq> 200 \<Longrightarrow>
           tr = [] \<or> tr = [PostAuth (portainerUsername cfg) (portainerPassword cfg)]"
    and "i < length (js_split CHR '','' (images cfg)) \<Longrightarrow> images cfg \<noteq> [] \<Longrightarrow>
           status (image_response srv i) \<noteq> 200 \<Longrightarrow> r \<in> set tr \<Longrightarrow> \<not> reconcile_request r"
    and "i < length (js_split CHR '','' (images cfg)) \<Longrightarrow> images cfg \<noteq> [] \<Longrightarrow>
           registry_of (js_split CHR '','' (images cfg) ! i) \<noteq> ''docker.io'' \<Longrightarrow>
           status (registries_response srv i) \<noteq> 200 \<Longrightarrow> r \<in> set tr \<Longrightarrow> \<not> reconcile_request r"
    and "\<not> truthy (standalone cfg) \<Longrightarrow> status (swarm_response srv) \<noteq> 200 \<Longrightarrow>
           r \<in> set tr \<Longrightarrow> (\<forall>f. r \<noteq> GetStacks f) \<and> \<not> stack_write r"
    and "status (stacks_response srv) \<noteq> 200 \<Longrightarrow> r \<in> set tr \<Longrightarrow> \<not> stack_write r"
proof -
  show "tr = [] \<or> tr = [PostAuth (portainerUsername cfg) (portainerPassword cfg)]"
    if "status (auth_response srv) \<noteq> 200"
    using assms that
    by (auto simp: run_def authenticate_def Let_def split: option.splits if_splits)
  have path: "\<exists>commit response tr1 localEp tr2 tr3 u.
           commitHash cfg = Some commit \<and> commit \<noteq> [] \<and>
           authenticate cfg srv [] = (tr1, Inr response) \<and>
           resolve_endpoint cfg srv response tr1 = (tr2, Inr localEp) \<and>
           pull_images cfg srv (ep_Id localEp) (releaseTag_of cfg commit) tr2 = (tr3, Inr u) \<and>
           reconcile cfg srv localEp (releaseTag_of cfg commit) tr3 = (tr, out)"
    if "r \<in> set tr" "reconcile_request r" for r
    using run_reaches_reconcile [OF assms that] .
  show "\<not> reconcile_request r"
    if "i < length (js_split CHR '','' (images cfg))" "images cfg \<noteq> []"
      "status (image_response srv i) \<noteq> 200" "r \<in> set tr"
  proof
    assume "reconcile_request r"
    from path [OF that(4) this] obtain ep tag tr2 tr3 u where
      "pull_images cfg srv ep tag tr2 = (tr3, Inr u)" by blast
    from pull_images_success(2) [OF this that(2,1)] that(3) show False by simp
  qed
  show "\<not> reconcile_request r"
    if "i < length (js_split CHR '','' (images cfg))" "images cfg \<noteq> []"
      "registry_of (js_split CHR '','' (images cfg) ! i) \<noteq> ''docker.io''"
      "status (registries_response srv i) \<noteq> 200" "r \<in> set tr"
  proof
    assume "reconcile_request r"
    from path [OF that(5) this] obtain ep tag tr2 tr3 u where
      "pull_images cfg srv ep tag tr2 = (tr3, Inr u)" by blast
    from pull_images_success(3) [OF this that(2,1)] that(3,4) show False
      by (simp add: registry_answered_def)
  qed
  show "(\<forall>f. r \<noteq> GetStacks f) \<and> \<not> stack_write r"
    if "\<not> truthy (standalone cfg)" "status (swarm_response srv) \<noteq> 200" "r \<in> set tr"
  proof (rule ccontr)
    assume "\<not> ((\<forall>f. r \<noteq> GetStacks f) \<and> \<not> stack_write r)"
    then have rr: "reconcile_request r" and ns: "\<forall>e. r \<noteq> GetSwarm e" by (cases r; simp)+
    from path [OF that(3) rr] obtain response tr1 localEp tag tr2 tr3 u where
      p: "authenticate cfg srv [] = (tr1, Inr response)"
        "resolve_endpoint cfg srv response tr1 = (tr2, Inr localEp)"
        "pull_images cfg srv (ep_Id localEp) tag tr2 = (tr3, Inr u)"
        "reconcile cfg srv localEp tag tr3 = (tr, out)" by blast
    have tr2: "tr2 = [PostAuth (portainerUsername cfg) (portainerPassword cfg), GetEndpoints]"
      using authenticate_trace [OF p(1)] resolve_endpoint_trace [OF p(2)] by simp
    from pull_images_trace [OF p(3)] obtain pulls where pulls: "tr3 = tr2 @ pulls"
        "\<forall>r \<in> set pulls. pull_ok cfg (ep_Id localEp) tag r \<and> images cfg \<noteq> []" by blast
    from reconcile_swarm_failed [OF p(4) that(1,2)] pulls(1) tr2 that(3) ns
    have "r = PostAuth (portainerUsername cfg) (portainerPassword cfg)
            \<or> r = GetEndpoints \<or> r \<in> set pulls" by auto
    with rr pulls(2) pull_ok_not_reconcile show False by auto
  qed
  show "\<not> stack_write r" if "status (stacks_response srv) \<noteq> 200" "r \<in> set tr"
  proof -
    have "filter stack_write tr = []"
    proof (cases "tr = []")
      case False
      from run_parts [OF assms False] obtain commit early pulls late ep where tr: "tr = early @ pulls @ late"
        and early: "early_ok cfg early"
        and pulls: "\<forall>r \<in> set pulls. pull_ok cfg ep (releaseTag_of cfg commit) r \<and> images cfg \<noteq> []"
        and shape: "late_shape cfg srv late"
        by blast
      from shape that(1) have "filter stack_write late = []" unfolding late_shape_def by auto
      with tr early_no_stack_write(1) [OF early] pulls_no_stack_write(1) [OF pulls]
      show ?thesis by simp
    qed simp
    with that(2) show ?thesis by (auto simp: filter_empty_conv)
  qed
qed


text \<open>The status of the endpoint response has no influence on the run, as long as axios
  accepts it.\<close>

lemma endpoint_status_ignored:
  assumes "validateStatus s"
  shows "run cfg (srv\<lparr>endpoints_response := \<lparr>status = s, data = d\<rparr>\<rparr>)
           = run cfg (srv\<lparr>endpoints_response := \<lparr>status = 200, data = d\<rparr>\<rparr>)"
proof -
  have a: "authenticate cfg (srv\<lparr>endpoints_response := x\<rparr>) tr = authenticate cfg srv tr"
    for x tr by (simp add: authenticate_def)
  have d: "deliver (srv\<lparr>endpoints_response := x\<rparr>) = deliver srv" for x
    by (intro ext) (simp add: deliver_def)
  have p: "pull_images cfg (srv\<lparr>endpoints_response := x\<rparr>) ep tag tr
             = pull_images cfg srv ep tag tr" for x ep tag tr
    by (simp add: pull_images_def d)
  have rs: "resolve_swarm cfg (srv\<lparr>endpoints_response := x\<rparr>) = resolve_swarm cfg srv" for x
    by (intro ext) (simp add: resolve_swarm_def)
  have ls: "list_stacks cfg (srv\<lparr>endpoints_response := x\<rparr>) = list_stacks cfg srv" for x
    by (intro ext) (simp add: list_stacks_def)
  have cs: "create_stack cfg (srv\<lparr>endpoints_response := x\<rparr>) = create_stack cfg srv" for x
    by (intro ext) (simp add: create_stack_def)
  have us: "update_stack cfg (srv\<lparr>endpoints_response := x\<rparr>) = update_stack cfg srv" for x
    by (intro ext) (simp add: update_stack_def)
  have r: "reconcile cfg (srv\<lparr>endpoints_response := x\<rparr>) localEp tag tr
             = reconcile cfg srv localEp tag tr" for x localEp tag tr
    by (simp only: reconcile_def rs ls cs us)
  have e: "resolve_endpoint cfg (srv\<lparr>endpoints_response := \<lparr>status = s, data = d\<rparr>\<rparr>) response tr
             = resolve_endpoint cfg (srv\<lparr>endpoints_response := \<lparr>status = 200, data = d\<rparr>\<rparr>)
                 response tr" for response tr
    using assms
    by (simp add: resolve_endpoint_def validateStatus_def Let_def cong del: if_weak_cong)
  show ?thesis by (simp only: run_def a p r e)
qed

text \<open>
  C2. After every request but one the run tests the status of the response it has just
  received and stops when it is not 200. After \<open>GET /endpoints\<close> it tests the status of
  the \<open>/auth\<close> response again (\<open>resolve_endpoint\<close>), so the endpoint response is
  never tested: when the control plane answers the endpoint request with status 500
  and a list that holds the endpoint, the run goes on as if the status were 200, pulls
  both images and updates the stack.
\<close>

theorem C2_endpoint_status_not_checked:
  "status (endpoints_response failing_endpoints_srv) = 500
   \<and> run demo_cfg failing_endpoints_srv = (demo_trace, Done)"
proof -
  have "status (endpoints_response failing_endpoints_srv) = 500"
    by (simp add: failing_endpoints_srv_def)
  moreover have "run demo_cfg failing_endpoints_srv = (demo_trace, Done)"
    by code_simp
  ultimately show ?thesis by simp
qed

subsection \<open>The release tag\<close>

lemma pull_tag_in_run:
  assumes "r \<in> set (fst (run cfg srv))" and "pull_tag r = Some tag"
  shows "\<exists>commit ep imageName auth. commitHash cfg = Some commit \<and> commit \<noteq> []
           \<and> tag = releaseTag_of cfg commit \<and> images cfg \<noteq> []
           \<and> r = PostImagesCreate ep imageName tag auth
           \<and> imageName \<in> set (js_split CHR '','' (images cfg))
           \<and> (auth = None \<longleftrightarrow> registry_of imageName = ''docker.io'')"
proof -
  from run_request_cases [OF assms(1)] obtain commit where c:
    "commitHash cfg = Some commit" "commit \<noteq> []"
    "(\<exists>u p. r = PostAuth u p) \<or> r = GetEndpoints
       \<or> (\<exists>ep. pull_ok cfg ep (releaseTag_of cfg commit) r) \<and> images cfg \<noteq> []
       \<or> late_ok cfg srv (releaseTag_of cfg commit) r" by blast
  from assms(2) obtain e i a where r: "r = PostImagesCreate e i tag a"
    by (cases r) simp_all
  with c(3) have "(\<exists>ep. pull_ok cfg ep (releaseTag_of cfg commit) r) \<and> images cfg \<noteq> []"
    by (simp add: late_ok_def)
  with r c(1,2) show ?thesis unfolding pull_ok_def by auto
qed

text \<open>
  C3. Without a commit hash (unset or empty) the run ends with \<open>process.exit(1)\<close> and
  has issued no request. Otherwise the release tag is the branch name, \<open>-\<close>, and the
  first 8 characters of the commit hash (the whole hash when it is shorter), where the
  branch name is what JavaScript's \<open>+\<close> makes of \<open>DRONE_BRANCH\<close>: its value, and
  \<open>undefined\<close> when the variable is unset. Every pull request of the run carries this
  tag, and the \<open>Env\<close> of every stack write starts with the entry \<open>RELEASE_TAG\<close> of this
  value.
\<close>

theorem C3_release_tag:
  "(commitHash cfg = None \<or> commitHash cfg = Some [] \<longrightarrow> run cfg srv = ([], Exit1)) \<and>
   (\<forall>commit. commitHash cfg = Some commit \<and> commit \<noteq> [] \<longrightarrow>
      (\<forall>r \<in> set (fst (run cfg srv)).
         (\<forall>tag. pull_tag r = Some tag \<longrightarrow>
            tag = js_string (branchName cfg) @ ''-'' @ take 8 commit) \<and>
         (\<forall>env. compose_env r = Some env \<longrightarrow>
            (\<exists>rest. env = \<lparr>env_name = ''RELEASE_TAG'',
                           env_value = Some (js_string (branchName cfg) @ ''-'' @ take 8 commit)\<rparr>
                          # rest))))"
proof (intro conjI impI allI ballI)
  assume "commitHash cfg = None \<or> commitHash cfg = Some []"
  then show "run cfg srv = ([], Exit1)" by (auto simp: run_def)
next
  fix commit r tag
  assume c: "commitHash cfg = Some commit \<and> commit \<noteq> []"
    and r: "r \<in> set (fst (run cfg srv))" and t: "pull_tag r = Some tag"
  from pull_tag_in_run [OF r t] c
  show "tag = js_string (branchName cfg) @ ''-'' @ take 8 commit"
    by (auto simp: releaseTag_of_def)
next
  fix commit r env
  assume c: "commitHash cfg = Some commit \<and> commit \<noteq> []"
    and r: "r \<in> set (fst (run cfg srv))" and e: "compose_env r = Some env"
  from compose_env_in_run [OF r e] c
  show "\<exists>rest. env = \<lparr>env_name = ''RELEASE_TAG'',
                      env_value = Some (js_string (branchName cfg) @ ''-'' @ take 8 commit)\<rparr>
                     # rest"
    by (auto simp: releaseTag_of_def composeEnvArray_def)
qed

theorem C3_witness:
  "run (demo_cfg\<lparr>commitHash := Some []\<rparr>) demo_srv = ([], Exit1)
   \<and> commitHash demo_cfg = Some ''0123456789abcdef''
   \<and> PostImagesCreate 1 ''registry.example.com/svc:latest'' ''dev-01234567'' (Some 5)
        \<in> set (fst (run demo_cfg demo_srv))
   \<and> ''dev-01234567'' = js_string (branchName demo_cfg) @ ''-'' @ take 8 ''0123456789abcdef''
   \<and> demo_update \<in> set (fst (run demo_cfg demo_srv))
   \<and> (\<exists>rest. compose_env demo_update
          = Some (\<lparr>env_name = ''RELEASE_TAG'', env_value = Some ''dev-01234567''\<rparr> # rest))"
proof -
  have a: "run (demo_cfg\<lparr>commitHash := Some []\<rparr>) demo_srv = ([], Exit1)"
    using C3_release_tag [of "demo_cfg\<lparr>commitHash := Some []\<rparr>" demo_srv] by simp
  have c: "commitHash demo_cfg = Some ''0123456789abcdef''" by (simp add: demo_cfg_def)
  have p: "PostImagesCreate 1 ''registry.example.com/svc:latest'' ''dev-01234567'' (Some 5)
        \<in> set (fst (run demo_cfg demo_srv))" by (simp add: run_demo demo_trace_def)
  have u: "demo_update \<in> set (fst (run demo_cfg demo_srv))" by (simp add: run_demo demo_trace_def)
  have t: "''dev-01234567'' = js_string (branchName demo_cfg) @ ''-'' @ take 8 ''0123456789abcdef''"
    using C3_release_tag [of demo_cfg demo_srv] c p by auto
  have e: "\<exists>rest. compose_env demo_update
          = Some (\<lparr>env_name = ''RELEASE_TAG'', env_value = Some ''dev-01234567''\<rparr> # rest)"
    by (simp add: demo_update_def demo_update_body_def)
  show ?thesis by (intro conjI a c p t u e)
qed

subsection \<open>Prune\<close>

text \<open>
  C4. The body of every create request and of every update request of a run has
  \<open>Prune\<close> true, whatever the configuration and the responses.
\<close>

theorem C4_prune_always_true:
  assumes "r \<in> set (fst (run cfg srv))"
  shows "(\<forall>ty ep body. r = PostStacks ty ep body \<longrightarrow> create_Prune body)
       \<and> (\<forall>sid ep body. r = PutStacks sid ep body \<longrightarrow> update_Prune body)"
proof -
  from run_request_cases [OF assms] obtain commit where
    "(\<exists>u p. r = PostAuth u p) \<or> r = GetEndpoints
       \<or> (\<exists>ep. pull_ok cfg ep (releaseTag_of cfg commit) r) \<and> images cfg \<noteq> []
       \<or> late_ok cfg srv (releaseTag_of cfg commit) r" by blast
  then show ?thesis
    by (cases r) (auto simp: pull_ok_def late_ok_def)
qed

theorem C4_witness:
  "demo_update \<in> set (fst (run demo_cfg demo_srv))
   \<and> demo_create \<in> set (fst (run standalone_cfg fresh_srv))
   \<and> update_Prune demo_update_body \<and> create_Prune demo_create_body"
proof -
  have u: "demo_update \<in> set (fst (run demo_cfg demo_srv))" by (simp add: run_demo demo_trace_def)
  have c: "demo_create \<in> set (fst (run standalone_cfg fresh_srv))" by (simp add: run_standalone)
  have pu: "update_Prune demo_update_body"
    using C4_prune_always_true [OF u] by (simp add: demo_update_def)
  have pc: "create_Prune demo_create_body"
    using C4_prune_always_true [OF c] by (simp add: demo_create_def)
  show ?thesis by (intro conjI u c pu pc)
qed

subsection \<open>Registry credentials\<close>



text \<open>A pull that is started when the list of registries is there does not ask for it.\<close>

lemma start_pull_cached:
  assumes "registries st = Some regs"
  shows "trace (start_pull ep tag imageName st) = trace st
       \<or> trace (start_pull ep tag imageName st)
            = trace st @ [PostImagesCreate ep imageName tag None]"
  using assms by (simp add: start_pull_def Let_def)

text \<open>
  C6. The list of registries is kept in \<open>registries\<close> once a response has arrived, and
  \<open>getRegistries\<close> returns it without a request when it is there. But all pulls are
  started before the first response arrives, so every pull of a private image finds
  \<open>registries\<close> still undefined and sends its own request: for two images of one
  private registry the run asks for the registry list twice.
\<close>

theorem C6_one_fetch_per_private_image:
  "js_split CHR '','' (images two_private_cfg)
     = [''registry.example.com/svc'', ''registry.example.com/web'']
   \<and> run two_private_cfg demo_srv
     = ([PostAuth (Some ''ci'') (Some ''pw''), GetEndpoints, GetRegistries, GetRegistries,
         PostImagesCreate 1 ''registry.example.com/web'' ''dev-01234567'' (Some 5),
         PostImagesCreate 1 ''registry.example.com/svc'' ''dev-01234567'' (Some 5),
         GetSwarm 1, GetStacks (Some ''swarm1''), demo_update], Done)
   \<and> registry_fetches (fst (run two_private_cfg demo_srv)) = 2"
proof -
  have s: "js_split CHR '','' (images two_private_cfg)
     = [''registry.example.com/svc'', ''registry.example.com/web'']"
    by (simp add: images_def two_private_cfg_def js_split_def)
  have r: "run two_private_cfg demo_srv
     = ([PostAuth (Some ''ci'') (Some ''pw''), GetEndpoints, GetRegistries, GetRegistries,
         PostImagesCreate 1 ''registry.example.com/web'' ''dev-01234567'' (Some 5),
         PostImagesCreate 1 ''registry.example.com/svc'' ''dev-01234567'' (Some 5),
         GetSwarm 1, GetStacks (Some ''swarm1''), demo_update], Done)"
    by code_simp
  have f: "registry_fetches (fst (run two_private_cfg demo_srv)) = 2"
    unfolding r by (simp add: registry_fetches_def demo_update_def)
  show ?thesis by (intro conjI s r f)
qed

subsection \<open>The compose environment\<close>

lemma additional_entries:
  assumes "distinct (map fst xs)"
  shows "map (\<lambda>k. \<lparr>env_name = k, env_value = map_of xs k\<rparr>) (map fst xs)
           = map (\<lambda>(k, v). \<lparr>env_name = k, env_value = Some v\<rparr>) xs"
  using assms by (auto simp: map_of_is_SomeI)

text \<open>
  C7. The \<open>Env\<close> of every create and update request names \<open>RELEASE_TAG\<close>,
  \<open>URL_PREFIX\<close>, \<open>STACK_NAME\<close>, in this order, and then the additional entries in the
  order of \<open>Object.keys\<close>; the additional entries follow with their values (the keys
  of an object are distinct).
\<close>

theorem C7_compose_env_order:
  assumes "r \<in> set (fst (run cfg srv))" and "compose_env r = Some env"
  shows "map env_name env
           = [''RELEASE_TAG'', ''URL_PREFIX'', ''STACK_NAME''] @ map fst (additionalComposeEnv cfg)
       \<and> (distinct (map fst (additionalComposeEnv cfg)) \<longrightarrow>
            drop 3 env = map (\<lambda>(k, v). \<lparr>env_name = k, env_value = Some v\<rparr>)
                           (additionalComposeEnv cfg))"
proof -
  from compose_env_in_run [OF assms] obtain commit where
    env: "env = composeEnvArray cfg (releaseTag_of cfg commit)" by blast
  have "map env_name env
           = [''RELEASE_TAG'', ''URL_PREFIX'', ''STACK_NAME''] @ map fst (additionalComposeEnv cfg)"
    unfolding env composeEnvArray_def by (simp add: comp_def)
  moreover have "drop 3 env = map (\<lambda>(k, v). \<lparr>env_name = k, env_value = Some v\<rparr>)
                           (additionalComposeEnv cfg)"
    if "distinct (map fst (additionalComposeEnv cfg))"
    unfolding env composeEnvArray_def using additional_entries [OF that] by simp
  ultimately show ?thesis by blast
qed

theorem C7_witness:
  "demo_update \<in> set (fst (run demo_cfg demo_srv))
   \<and> additionalComposeEnv demo_cfg = [(''A'', ''1''), (''B'', ''2'')]
   \<and> (\<exists>env. compose_env demo_update = Some env
         \<and> map env_name env = [''RELEASE_TAG'', ''URL_PREFIX'', ''STACK_NAME'', ''A'', ''B'']
         \<and> drop 3 env = [\<lparr>env_name = ''A'', env_value = Some ''1''\<rparr>,
                         \<lparr>env_name = ''B'', env_value = Some ''2''\<rparr>])"
proof -
  have u: "demo_update \<in> set (fst (run demo_cfg demo_srv))" by (simp add: run_demo demo_trace_def)
  have a: "additionalComposeEnv demo_cfg = [(''A'', ''1''), (''B'', ''2'')]"
    by (simp add: demo_cfg_def)
  have e: "compose_env demo_update = Some (update_Env demo_update_body)"
    by (simp add: demo_update_def)
  from C7_compose_env_order [OF u e]
  have m: "map env_name (update_Env demo_update_body)
          = [''RELEASE_TAG'', ''URL_PREFIX'', ''STACK_NAME'', ''A'', ''B'']"
    and d: "drop 3 (update_Env demo_update_body)
          = [\<lparr>env_name = ''A'', env_value = Some ''1''\<rparr>, \<lparr>env_name = ''B'', env_value = Some ''2''\<rparr>]"
    unfolding a by simp_all
  have "\<exists>env. compose_env demo_update = Some env
         \<and> map env_name env = [''RELEASE_TAG'', ''URL_PREFIX'', ''STACK_NAME'', ''A'', ''B'']
         \<and> drop 3 env = [\<lparr>env_name = ''A'', env_value = Some ''1''\<rparr>,
                         \<lparr>env_name = ''B'', env_value = Some ''2''\<rparr>]"
    by (rule exI [of _ "update_Env demo_update_body"])
       (intro conjI e m d)
  with u a show ?thesis by (intro conjI)
qed

text \<open>
  C8. For a branch other than \<open>main\<close> the URL prefix is the branch name followed by a
  dot, for \<open>main\<close> it is empty; it is the value of the second entry, \<open>URL_PREFIX\<close>, of
  the \<open>Env\<close> of every stack write.
\<close>

theorem C8_url_prefix:
  assumes "branchName cfg = Some branch"
  shows "urlPrefix cfg = (if branch = ''main'' then [] else branch @ ''.'')
       \<and> (\<forall>r \<in> set (fst (run cfg srv)). \<forall>env. compose_env r = Some env \<longrightarrow>
            env ! 1 = \<lparr>env_name = ''URL_PREFIX'',
                       env_value = Some (if branch = ''main'' then [] else branch @ ''.'')\<rparr>)"
proof -
  have p: "urlPrefix cfg = (if branch = ''main'' then [] else branch @ ''.'')"
    using assms by (simp add: urlPrefix_def js_string_def)
  have "env ! 1 = \<lparr>env_name = ''URL_PREFIX'', env_value = Some (urlPrefix cfg)\<rparr>"
    if "r \<in> set (fst (run cfg srv))" and "compose_env r = Some env" for r env
    using compose_env_in_run [OF that] by (auto simp: composeEnvArray_def)
  with p show ?thesis by simp
qed

theorem C8_witness:
  "branchName demo_cfg = Some ''dev'' \<and> urlPrefix demo_cfg = ''dev.''
   \<and> demo_update \<in> set (fst (run demo_cfg demo_srv))
   \<and> update_Env demo_update_body ! 1
       = \<lparr>env_name = ''URL_PREFIX'', env_value = Some ''dev.''\<rparr>
   \<and> urlPrefix (demo_cfg\<lparr>branchName := Some ''main''\<rparr>) = []"
proof -
  have b: "branchName demo_cfg = Some ''dev''" by (simp add: demo_cfg_def)
  have u: "demo_update \<in> set (fst (run demo_cfg demo_srv))" by (simp add: run_demo demo_trace_def)
  have e: "compose_env demo_update = Some (update_Env demo_update_body)"
    by (simp add: demo_update_def)
  from C8_url_prefix [OF b, of demo_srv] u e
  have p: "urlPrefix demo_cfg = ''dev.''"
    and v: "update_Env demo_update_body ! 1
       = \<lparr>env_name = ''URL_PREFIX'', env_value = Some ''dev.''\<rparr>"
    by simp_all
  have m: "urlPrefix (demo_cfg\<lparr>branchName := Some ''main''\<rparr>) = []"
    using C8_url_prefix [of "demo_cfg\<lparr>branchName := Some ''main''\<rparr>" "''main''" demo_srv]
    by simp
  show ?thesis by (intro conjI b p u v m)
qed

subsection \<open>No images\<close>

text \<open>
  C9. When \<open>PLUGIN_IMAGES\<close> is unset or empty the pull stage does nothing: the run
  issues no pull request and no request for the registry list, and once the endpoint
  is resolved the run is the reconciliation stage, started on the trace of the two
  requests before it.
\<close>

theorem C9_no_images_skips_pull:
  assumes "PLUGIN_IMAGES cfg = None \<or> PLUGIN_IMAGES cfg = Some []"
  shows "pull_images cfg srv ep tag tr = (tr, Inr ())
       \<and> (\<forall>r \<in> set (fst (run cfg srv)). r \<noteq> GetRegistries \<and> pull_tag r = None)
       \<and> (\<forall>commit tr1 response tr2 localEp.
            commitHash cfg = Some commit \<and> commit \<noteq> [] \<and>
            authenticate cfg srv [] = (tr1, Inr response) \<and>
            resolve_endpoint cfg srv response tr1 = (tr2, Inr localEp) \<longrightarrow>
            run cfg srv = reconcile cfg srv localEp (releaseTag_of cfg commit) tr2)"
proof -
  have i: "images cfg = []" using assms by (auto simp: images_def)
  then have p: "pull_images cfg srv ep tag tr = (tr, Inr ())" for ep tag tr
    by (simp add: pull_images_def)
  have "r \<noteq> GetRegistries \<and> pull_tag r = None" if "r \<in> set (fst (run cfg srv))" for r
  proof -
    from run_request_cases [OF that] i obtain commit where
      "(\<exists>u p. r = PostAuth u p) \<or> r = GetEndpoints \<or> late_ok cfg srv (releaseTag_of cfg commit) r"
      by blast
    then show ?thesis by (cases r) (auto simp: late_ok_def)
  qed
  moreover have "run cfg srv = reconcile cfg srv localEp (releaseTag_of cfg commit) tr2"
    if "commitHash cfg = Some commit \<and> commit \<noteq> [] \<and>
        authenticate cfg srv [] = (tr1, Inr response) \<and>
        resolve_endpoint cfg srv response tr1 = (tr2, Inr localEp)"
    for commit tr1 response tr2 localEp
    using that by (simp add: run_def p)
  ultimately show ?thesis using p by blast
qed

theorem C9_witness:
  "PLUGIN_IMAGES standalone_cfg = None
   \<and> pull_images standalone_cfg fresh_srv 1 ''dev-01234567'' [] = ([], Inr ())
   \<and> fst (run standalone_cfg fresh_srv)
       = [PostAuth (Some ''ci'') (Some ''pw''), GetEndpoints, GetStacks None, demo_create]
   \<and> GetEndpoints \<noteq> GetRegistries \<and> pull_tag GetEndpoints = None"
proof -
  have n: "PLUGIN_IMAGES standalone_cfg = None" by (simp add: standalone_cfg_def)
  then have h: "PLUGIN_IMAGES standalone_cfg = None \<or> PLUGIN_IMAGES standalone_cfg = Some []"
    by simp
  have t: "fst (run standalone_cfg fresh_srv)
       = [PostAuth (Some ''ci'') (Some ''pw''), GetEndpoints, GetStacks None, demo_create]"
    by (simp add: run_standalone)
  then have g: "GetEndpoints \<in> set (fst (run standalone_cfg fresh_srv))" by simp
  from C9_no_images_skips_pull [OF h, of fresh_srv 1 "''dev-01234567''" "[]"] g
  have "pull_images standalone_cfg fresh_srv 1 ''dev-01234567'' [] = ([], Inr ())"
    and "GetEndpoints \<noteq> GetRegistries \<and> pull_tag GetEndpoints = None"
    by blast+
  with n t show ?thesis by (intro conjI) simp_all
qed

subsection \<open>Standalone and force-pull\<close>

lemma stacks_after_swarm:
  assumes "GetStacks f \<in> set (fst (run cfg srv))" and "\<not> truthy (standalone cfg)"
  shows "\<exists>ep. GetSwarm ep \<in> set (fst (run cfg srv))"
proof -
  have "run cfg srv = (fst (run cfg srv), snd (run cfg srv))" by simp
  moreover have "fst (run cfg srv) \<noteq> []" using assms(1) by auto
  ultimately obtain commit early pulls late ep where tr: "fst (run cfg srv) = early @ pulls @ late"
    and early: "early_ok cfg early"
    and pulls: "\<forall>r \<in> set pulls. pull_ok cfg ep (releaseTag_of cfg commit) r \<and> images cfg \<noteq> []"
    and shape: "late_shape cfg srv late"
    using run_parts [of cfg srv "fst (run cfg srv)" "snd (run cfg srv)"] by blast
  have "GetStacks f \<in> set late"
    using assms(1) tr early_no_stack_write(2) [OF early] pulls_no_stack_write(2) [OF pulls]
    by simp
  then have "late \<noteq> []" by auto
  with shape assms(2) obtain e rest where "late = GetSwarm e # rest"
    unfolding late_shape_def by blast
  with tr show ?thesis by auto
qed

text \<open>
  C10. \<open>PLUGIN_STANDALONE\<close> and \<open>PLUGIN_FORCE_PULL\<close> count as set when they are
  non-empty strings, whatever the string (\<open>false\<close> included). With a non-empty
  \<open>PLUGIN_STANDALONE\<close> the run asks for no swarm, lists the stacks without a filter and
  creates with type 2 and no \<open>SwarmID\<close>; with the variable unset or empty the stack list
  is filtered by the swarm id, which was asked for, and the stack is created with
  type 1 and this \<open>SwarmID\<close>. \<open>PullImage\<close> of an update is true exactly when
  \<open>PLUGIN_FORCE_PULL\<close> is a non-empty string.
\<close>

theorem C10_flags_by_truthiness:
  assumes "r \<in> set (fst (run cfg srv))"
  shows "(\<forall>s. PLUGIN_STANDALONE cfg = Some s \<and> s \<noteq> [] \<longrightarrow>
            (\<forall>ep. r \<noteq> GetSwarm ep) \<and> (\<forall>f. r = GetStacks f \<longrightarrow> f = None) \<and>
            (\<forall>ty ep body. r = PostStacks ty ep body \<longrightarrow> ty = 2 \<and> create_SwarmID body = None))
       \<and> (PLUGIN_STANDALONE cfg = None \<or> PLUGIN_STANDALONE cfg = Some [] \<longrightarrow>
            (\<forall>f. r = GetStacks f \<longrightarrow>
               f = Some (data (swarm_response srv)) \<and>
               (\<exists>ep. GetSwarm ep \<in> set (fst (run cfg srv)))) \<and>
            (\<forall>ty ep body. r = PostStacks ty ep body \<longrightarrow>
               ty = 1 \<and> create_SwarmID body = Some (data (swarm_response srv))))
       \<and> (\<forall>sid ep body. r = PutStacks sid ep body \<longrightarrow>
            (update_PullImage body \<longleftrightarrow> (\<exists>s. PLUGIN_FORCE_PULL cfg = Some s \<and> s \<noteq> [])))"
proof -
  from run_request_cases [OF assms] obtain commit where c:
    "(\<exists>u p. r = PostAuth u p) \<or> r = GetEndpoints
       \<or> (\<exists>ep. pull_ok cfg ep (releaseTag_of cfg commit) r) \<and> images cfg \<noteq> []
       \<or> late_ok cfg srv (releaseTag_of cfg commit) r" by blast
  have st: "truthy (standalone cfg) \<longleftrightarrow> (\<exists>s. PLUGIN_STANDALONE cfg = Some s \<and> s \<noteq> [])"
    by (simp add: standalone_def truthy_or_false)
  have fp: "truthy (forcePull cfg) \<longleftrightarrow> (\<exists>s. PLUGIN_FORCE_PULL cfg = Some s \<and> s \<noteq> [])"
    by (simp add: forcePull_def truthy_or_false)
  have a: "(\<forall>ep. r \<noteq> GetSwarm ep) \<and> (\<forall>f. r = GetStacks f \<longrightarrow> f = None) \<and>
            (\<forall>ty ep body. r = PostStacks ty ep body \<longrightarrow> ty = 2 \<and> create_SwarmID body = None)"
    if "truthy (standalone cfg)"
    using c that by (cases r) (auto simp: pull_ok_def late_ok_def)
  have b: "(\<forall>f. r = GetStacks f \<longrightarrow> f = Some (data (swarm_response srv))) \<and>
            (\<forall>ty ep body. r = PostStacks ty ep body \<longrightarrow>
               ty = 1 \<and> create_SwarmID body = Some (data (swarm_response srv)))"
    if "\<not> truthy (standalone cfg)"
    using c that by (cases r) (auto simp: pull_ok_def late_ok_def)
  have b': "\<exists>ep. GetSwarm ep \<in> set (fst (run cfg srv))"
    if "\<not> truthy (standalone cfg)" and "r = GetStacks f" for f
    using stacks_after_swarm [of f cfg srv] assms that by simp
  have d: "\<forall>sid ep body. r = PutStacks sid ep body \<longrightarrow>
            (update_PullImage body \<longleftrightarrow> truthy (forcePull cfg))"
    using c by (cases r) (auto simp: pull_ok_def late_ok_def)
  have n: "\<not> truthy (standalone cfg)"
    if "PLUGIN_STANDALONE cfg = None \<or> PLUGIN_STANDALONE cfg = Some []"
    using that st by auto
  have A: "\<forall>s. PLUGIN_STANDALONE cfg = Some s \<and> s \<noteq> [] \<longrightarrow>
            (\<forall>ep. r \<noteq> GetSwarm ep) \<and> (\<forall>f. r = GetStacks f \<longrightarrow> f = None) \<and>
            (\<forall>ty ep body. r = PostStacks ty ep body \<longrightarrow> ty = 2 \<and> create_SwarmID body = None)"
  proof (intro allI impI)
    fix s assume "PLUGIN_STANDALONE cfg = Some s \<and> s \<noteq> []"
    then have "truthy (standalone cfg)" using st by blast
    from a [OF this]
    show "(\<forall>ep. r \<noteq> GetSwarm ep) \<and> (\<forall>f. r = GetStacks f \<longrightarrow> f = None) \<and>
            (\<forall>ty ep body. r = PostStacks ty ep body \<longrightarrow> ty = 2 \<and> create_SwarmID body = None)" .
  qed
  have B: "PLUGIN_STANDALONE cfg = None \<or> PLUGIN_STANDALONE cfg = Some [] \<longrightarrow>
            (\<forall>f. r = GetStacks f \<longrightarrow>
               f = Some (data (swarm_response srv)) \<and>
               (\<exists>ep. GetSwarm ep \<in> set (fst (run cfg srv)))) \<and>
            (\<forall>ty ep body. r = PostStacks ty ep body \<longrightarrow>
               ty = 1 \<and> create_SwarmID body = Some (data (swarm_response srv)))"
  proof (rule impI)
    assume h: "PLUGIN_STANDALONE cfg = None \<or> PLUGIN_STANDALONE cfg = Some []"
    from b [OF n [OF h]] b' [OF n [OF h]]
    show "(\<forall>f. r = GetStacks f \<longrightarrow>
               f = Some (data (swarm_response srv)) \<and>
               (\<exists>ep. GetSwarm ep \<in> set (fst (run cfg srv)))) \<and>
            (\<forall>ty ep body. r = PostStacks ty ep body \<longrightarrow>
               ty = 1 \<and> create_SwarmID body = Some (data (swarm_response srv)))"
      by blast
  qed
  have D: "\<forall>sid ep body. r = PutStacks sid ep body \<longrightarrow>
            (update_PullImage body \<longleftrightarrow> (\<exists>s. PLUGIN_FORCE_PULL cfg = Some s \<and> s \<noteq> []))"
    using d fp by simp
  show ?thesis by (rule conjI [OF A conjI [OF B D]])
qed

theorem C10_witness:
  "PLUGIN_STANDALONE standalone_cfg = Some ''false''
   \<and> fst (run standalone_cfg fresh_srv)
       = [PostAuth (Some ''ci'') (Some ''pw''), GetEndpoints, GetStacks None,
          PostStacks 2 1 demo_create_body]
   \<and> create_SwarmID demo_create_body = None
   \<and> PLUGIN_STANDALONE demo_cfg = None \<and> PLUGIN_FORCE_PULL demo_cfg = Some ''false''
   \<and> GetStacks (Some ''swarm1'') \<in> set (fst (run demo_cfg demo_srv))
   \<and> Some ''swarm1'' = Some (data (swarm_response demo_srv))
   \<and> PutStacks 7 1 demo_update_body \<in> set (fst (run demo_cfg demo_srv))
   \<and> update_PullImage demo_update_body"
proof -
  have s: "PLUGIN_STANDALONE standalone_cfg = Some ''false''" by (simp add: standalone_cfg_def)
  have t: "fst (run standalone_cfg fresh_srv)
       = [PostAuth (Some ''ci'') (Some ''pw''), GetEndpoints, GetStacks None,
          PostStacks 2 1 demo_create_body]"
    by (simp add: run_standalone demo_create_def)
  then have c: "PostStacks 2 1 demo_create_body \<in> set (fst (run standalone_cfg fresh_srv))"
    by simp
  have w1: "create_SwarmID demo_create_body = None"
    using C10_flags_by_truthiness [OF c] s by blast
  have n: "PLUGIN_STANDALONE demo_cfg = None" by (simp add: demo_cfg_def)
  have f: "PLUGIN_FORCE_PULL demo_cfg = Some ''false''" by (simp add: demo_cfg_def)
  have g: "GetStacks (Some ''swarm1'') \<in> set (fst (run demo_cfg demo_srv))"
    by (simp add: run_demo demo_trace_def)
  have w2: "Some ''swarm1'' = Some (data (swarm_response demo_srv))"
    using C10_flags_by_truthiness [OF g] n by blast
  have u: "PutStacks 7 1 demo_update_body \<in> set (fst (run demo_cfg demo_srv))"
    by (simp add: run_demo demo_trace_def demo_update_def)
  have "\<exists>s. PLUGIN_FORCE_PULL demo_cfg = Some s \<and> s \<noteq> []" using f by simp
  then have w3: "update_PullImage demo_update_body"
    using C10_flags_by_truthiness [OF u] by blast
  show ?thesis by (intro conjI s t w1 n f g w2 u w3)
qed

end
